theory Spec2Isabelle
  imports
    Complex_Main
    "HOL-Library.Word"
    "HOL-Library.Signed_Division"
    "HOL-Library.Multiset"
begin

section \<open>Machine integers of the C++ sources\<close>

text \<open>
  \<^verbatim>\<open>int\<close> and \<^verbatim>\<open>unsigned int\<close> are 32 bits wide on every CUDA target. Both are
  modelled as \<open>32 word\<close>: \<open>+\<close>, \<open>-\<close> and \<open>*\<close> wrap around, \<open><\<close> on words is the unsigned
  comparison and \<open><s\<close> the signed one. Signed overflow is undefined in C++; the model
  wraps, and the theorems that depend on it say which ranges they cover.
  \<^verbatim>\<open>size_t\<close> is 64 bits wide.
\<close>

type_synonym int32 = "32 word"
type_synonym uint32 = "32 word"
type_synonym size_t = "64 word"

text \<open>C++ \<^verbatim>\<open>/\<close> and \<^verbatim>\<open>%\<close> on \<^verbatim>\<open>int\<close> truncate towards zero.\<close>

definition int_div :: "int32 \<Rightarrow> int32 \<Rightarrow> int32" where
  "int_div a b = word_of_int (sint a sdiv sint b)"

definition int_rem :: "int32 \<Rightarrow> int32 \<Rightarrow> int32" where
  "int_rem a b = word_of_int (sint a smod sint b)"

section \<open>The launch scheduler: \<^verbatim>\<open>muda/launch/parallel_for.h\<close>\<close>

subsection \<open>Kernels\<close>

text \<open>
  A kernel thread is modelled by the list of indices it passes to the callable \<^verbatim>\<open>f\<close>,
  in the order of the calls. The built-in variables \<^verbatim>\<open>blockIdx.x\<close>, \<^verbatim>\<open>blockDim.x\<close>,
  \<^verbatim>\<open>gridDim.x\<close> and \<^verbatim>\<open>threadIdx.x\<close> are \<^verbatim>\<open>unsigned int\<close>, so \<^verbatim>\<open>tid\<close> is unsigned, and by the
  usual arithmetic conversions so are \<^verbatim>\<open>step * tid\<close>, \<^verbatim>\<open>i\<close> and the comparison
  \<^verbatim>\<open>i < end\<close>.
\<close>

definition parallelForKernel ::
  "uint32 \<Rightarrow> uint32 \<Rightarrow> uint32 \<Rightarrow> int32 \<Rightarrow> int32 \<Rightarrow> int32 \<Rightarrow> int32 list" where
  "parallelForKernel blockIdx_x blockDim_x threadIdx_x begin end step =
     (let tid = blockIdx_x * blockDim_x + threadIdx_x;
          i = begin + step * tid
      in if i < end then [i] else [])"

text \<open>
  The \<^verbatim>\<open>while\<close> loop of \<^verbatim>\<open>gridStrideLoopKernel\<close>, with \<open>stride = blockDim.x * gridDim.x\<close>
  and the calls made so far in \<open>calls\<close>. The loop need not end (for instance when the
  stride wraps to 0), so not returning is the value \<open>None\<close>.
\<close>

partial_function (option) gridStrideLoop ::
  "uint32 \<Rightarrow> int32 \<Rightarrow> int32 \<Rightarrow> int32 \<Rightarrow> uint32 \<Rightarrow> int32 list \<Rightarrow> int32 list option" where
  "gridStrideLoop stride begin end step k calls =
     (if begin + step * k < end
      then gridStrideLoop stride begin end step (k + stride) (calls @ [begin + step * k])
      else Some calls)"

definition gridStrideLoopKernel ::
  "uint32 \<Rightarrow> uint32 \<Rightarrow> uint32 \<Rightarrow> uint32 \<Rightarrow> int32 \<Rightarrow> int32 \<Rightarrow> int32 \<Rightarrow> int32 list option" where
  "gridStrideLoopKernel blockIdx_x blockDim_x gridDim_x threadIdx_x begin end step =
     (let tid = blockIdx_x * blockDim_x + threadIdx_x
      in gridStrideLoop (blockDim_x * gridDim_x) begin end step tid [])"

subsection \<open>The class \<^verbatim>\<open>parallel_for\<close>\<close>

type_synonym cudaStream_t = nat

record parallel_for =
  gridDim :: int32
  blockDim :: int32
  sharedMemSize :: size_t
  stream :: cudaStream_t

text \<open>The two constructors: the first leaves \<open>gridDim\<close> at 0.\<close>

definition parallel_for_block :: "int32 \<Rightarrow> size_t \<Rightarrow> cudaStream_t \<Rightarrow> parallel_for" where
  "parallel_for_block bd smem st =
     \<lparr>gridDim = 0, blockDim = bd, sharedMemSize = smem, stream = st\<rparr>"

definition parallel_for_grid ::
  "int32 \<Rightarrow> int32 \<Rightarrow> size_t \<Rightarrow> cudaStream_t \<Rightarrow> parallel_for" where
  "parallel_for_grid gd bd smem st =
     \<lparr>gridDim = gd, blockDim = bd, sharedMemSize = smem, stream = st\<rparr>"

datatype error =
    logic_error string
  | division_by_zero
  | transfer_error

definition checkInput :: "int32 \<Rightarrow> int32 \<Rightarrow> int32 \<Rightarrow> error + unit" where
  "checkInput begin end step =
     (if step = 0 then Inl (logic_error ''step should not be 0!'')
      else if step * (end - begin) <s 0
      then Inl (logic_error ''step direction is not consistent with [begin, end)!'')
      else Inr ())"

text \<open>
  \<^verbatim>\<open>calculateGridDim\<close>. An integer division by zero traps; it is a branch of the model.
\<close>

definition calculateGridDim :: "parallel_for \<Rightarrow> int32 \<Rightarrow> int32 \<Rightarrow> int32 \<Rightarrow> error + int32" where
  "calculateGridDim pf begin end step =
     (let stride = end - begin
      in if step = 0 then Inl division_by_zero
         else
           let nMinthread = int_div stride step + (if int_rem stride step \<noteq> 0 then 1 else 0)
           in if blockDim pf = 0 then Inl division_by_zero
              else
                let nMinblocks = int_div nMinthread (blockDim pf)
                      + (if 0 <s int_rem nMinthread (blockDim pf) then 1 else 0)
                in Inr nMinblocks)"

subsection \<open>Dispatches\<close>

datatype kernel = ParallelForKernel | GridStrideLoopKernel

text \<open>
  One \<^verbatim>\<open>kernel<<<grid, block, shared, stream>>>(f, begin, end, step)\<close>: what the execution
  context receives.
\<close>

record 'f launch =
  l_kernel :: kernel
  l_gridDim :: uint32
  l_blockDim :: uint32
  l_sharedMem :: size_t
  l_stream :: cudaStream_t
  l_f :: 'f
  l_begin :: int32
  l_end :: int32
  l_step :: int32

text \<open>
  \<^verbatim>\<open>apply(begin, end, step, f)\<close>. The state is the list of dispatches issued so far; the
  result is the error thrown, if any, and the state after the call.
\<close>

definition parallel_for_apply ::
  "parallel_for \<Rightarrow> int32 \<Rightarrow> int32 \<Rightarrow> int32 \<Rightarrow> 'f \<Rightarrow> 'f launch list
     \<Rightarrow> (error + unit) \<times> 'f launch list" where
  "parallel_for_apply pf begin end step f issued =
     (case checkInput begin end step of
        Inl err \<Rightarrow> (Inl err, issued)
      | Inr _ \<Rightarrow>
          if gridDim pf \<le>s 0 then
            if begin \<noteq> end then
              (case calculateGridDim pf begin end step of
                 Inl err \<Rightarrow> (Inl err, issued)
               | Inr nBlocks \<Rightarrow>
                   (Inr (), issued @
                      [\<lparr>l_kernel = ParallelForKernel, l_gridDim = nBlocks,
                        l_blockDim = blockDim pf, l_sharedMem = sharedMemSize pf,
                        l_stream = stream pf, l_f = f,
                        l_begin = begin, l_end = end, l_step = step\<rparr>]))
            else (Inr (), issued)
          else
            (Inr (), issued @
               [\<lparr>l_kernel = GridStrideLoopKernel, l_gridDim = gridDim pf,
                 l_blockDim = blockDim pf, l_sharedMem = sharedMemSize pf,
                 l_stream = stream pf, l_f = f,
                 l_begin = begin, l_end = end, l_step = step\<rparr>]))"

text \<open>
  What a dispatch runs: every pair of a block index below the grid dimension and a thread
  index below the block dimension runs the kernel once. The units run in no fixed order;
  the list below is in the order of the thread ids and only its multiset matters.
  \<open>None\<close>: some unit never returns. The limits that the hardware puts on the two
  dimensions are not modelled.
\<close>

definition units :: "uint32 \<Rightarrow> uint32 \<Rightarrow> (uint32 \<times> uint32) list" where
  "units gd bd =
     concat (map (\<lambda>b. map (\<lambda>t. (of_nat b, of_nat t)) [0..<unat bd]) [0..<unat gd])"

definition run_unit :: "'f launch \<Rightarrow> uint32 \<times> uint32 \<Rightarrow> int32 list option" where
  "run_unit l u =
     (case l_kernel l of
        ParallelForKernel \<Rightarrow>
          Some (parallelForKernel (fst u) (l_blockDim l) (snd u) (l_begin l) (l_end l) (l_step l))
      | GridStrideLoopKernel \<Rightarrow>
          gridStrideLoopKernel (fst u) (l_blockDim l) (l_gridDim l) (snd u)
            (l_begin l) (l_end l) (l_step l))"

definition run_launch :: "'f launch \<Rightarrow> int32 list option" where
  "run_launch l =
     map_option concat (those (map (run_unit l) (units (l_gridDim l) (l_blockDim l))))"

text \<open>The calls made by everything a call of \<open>parallel_for_apply\<close> issued.\<close>

definition invocations :: "'f launch list \<Rightarrow> int32 list option" where
  "invocations ls = map_option concat (those (map run_launch ls))"

section \<open>The graph node descriptor builder: \<^verbatim>\<open>parallel_for::asNodeParms\<close>\<close>

text \<open>
  The payload \<^verbatim>\<open>kernelData<F>\<close>, its fields in the order of their declaration, and its
  constructor, whose parameters come in the order \<^verbatim>\<open>(begin, step, end, callable)\<close>.
\<close>

record 'f kernelData =
  kd_begin :: int32
  kd_step :: int32
  kd_end :: int32
  kd_callable :: 'f

definition kernelData_ctor :: "int32 \<Rightarrow> int32 \<Rightarrow> int32 \<Rightarrow> 'f \<Rightarrow> 'f kernelData" where
  "kernelData_ctor begin step end callable =
     \<lparr>kd_begin = begin, kd_step = step, kd_end = end, kd_callable = callable\<rparr>"

text \<open>
  A raw pointer into a payload: the heap address of the descriptor that holds the payload,
  and the field it points at.
\<close>

datatype field = callable_field | begin_field | end_field | step_field

datatype pointer = field_ptr nat field

text \<open>
  Modelled from the spec: the class \<^verbatim>\<open>kernelNodeParms<U>\<close> is declared outside the
  sources at hand. The spec's Graph Node Descriptor holds the entry point, \<open>gridDim\<close>,
  \<open>blockDim\<close>, \<open>sharedMemBytes\<close>, the ordered argument pointers and the payload; each
  setter records its argument, and \<^verbatim>\<open>parse\<close> records the pointers that its function
  argument returns for the descriptor's own payload.
\<close>

record 'f kernelNodeParms =
  kernelParmData :: "'f kernelData"
  np_func :: "kernel option"
  np_gridDim :: uint32
  np_blockDim :: uint32
  np_sharedMemBytes :: size_t
  np_args :: "pointer list"

definition kernelNodeParms_ctor :: "int32 \<Rightarrow> int32 \<Rightarrow> int32 \<Rightarrow> 'f \<Rightarrow> 'f kernelNodeParms" where
  "kernelNodeParms_ctor a1 a2 a3 a4 =
     \<lparr>kernelParmData = kernelData_ctor a1 a2 a3 a4, np_func = None, np_gridDim = 0,
      np_blockDim = 0, np_sharedMemBytes = 0, np_args = []\<rparr>"

definition set_func :: "kernel \<Rightarrow> 'f kernelNodeParms \<Rightarrow> 'f kernelNodeParms" where
  "set_func v parms = parms\<lparr>np_func := Some v\<rparr>"

definition set_gridDim :: "uint32 \<Rightarrow> 'f kernelNodeParms \<Rightarrow> 'f kernelNodeParms" where
  "set_gridDim v parms = parms\<lparr>np_gridDim := v\<rparr>"

definition set_blockDim :: "uint32 \<Rightarrow> 'f kernelNodeParms \<Rightarrow> 'f kernelNodeParms" where
  "set_blockDim v parms = parms\<lparr>np_blockDim := v\<rparr>"

definition set_sharedMemBytes :: "size_t \<Rightarrow> 'f kernelNodeParms \<Rightarrow> 'f kernelNodeParms" where
  "set_sharedMemBytes v parms = parms\<lparr>np_sharedMemBytes := v\<rparr>"

definition parse :: "(nat \<Rightarrow> pointer list) \<Rightarrow> nat \<Rightarrow> 'f kernelNodeParms \<Rightarrow> 'f kernelNodeParms" where
  "parse pred self parms = parms\<lparr>np_args := pred self\<rparr>"

text \<open>
  The lambda that \<^verbatim>\<open>asNodeParms\<close> hands to \<^verbatim>\<open>parse\<close>:
  \<^verbatim>\<open>return {&p.callable, &p.begin, &p.end, &p.step};\<close>
\<close>

definition payload_addresses :: "nat \<Rightarrow> pointer list" where
  "payload_addresses p =
     [field_ptr p callable_field, field_ptr p begin_field,
      field_ptr p end_field, field_ptr p step_field]"

text \<open>
  \<^verbatim>\<open>asNodeParms(begin, end, step, f)\<close>. The heap is the list of the descriptors made by
  \<^verbatim>\<open>std::make_shared\<close> so far, a descriptor's address its position in the list. The
  result is the error thrown or the address of the new descriptor, and the heap after the
  call; the descriptor \<open>parms\<close> is written to the heap once its setters have run.
\<close>

definition asNodeParms ::
  "parallel_for \<Rightarrow> int32 \<Rightarrow> int32 \<Rightarrow> int32 \<Rightarrow> 'f \<Rightarrow> 'f kernelNodeParms list
     \<Rightarrow> (error + nat) \<times> 'f kernelNodeParms list" where
  "asNodeParms pf begin end step f heap =
     (case checkInput begin end step of
        Inl err \<Rightarrow> (Inl err, heap)
      | Inr _ \<Rightarrow>
          let self = length heap;
              parms = kernelNodeParms_ctor begin step end f;
              shaped =
                (if gridDim pf \<le>s 0 then
                   (case calculateGridDim pf begin end step of
                      Inl err \<Rightarrow> Inl err
                    | Inr nBlocks \<Rightarrow> Inr (set_gridDim nBlocks (set_func ParallelForKernel parms)))
                 else Inr (set_gridDim (gridDim pf) (set_func GridStrideLoopKernel parms)))
          in (case shaped of
                Inl err \<Rightarrow> (Inl err, heap)
              | Inr parms' \<Rightarrow>
                  (Inr self,
                   heap @ [parse payload_addresses self
                             (set_sharedMemBytes (sharedMemSize pf)
                               (set_blockDim (blockDim pf) parms'))])))"

text \<open>What a raw pointer of a descriptor points at, read from the heap.\<close>

datatype 'f arg = callable_arg 'f | int_arg int32

definition deref :: "'f kernelNodeParms list \<Rightarrow> pointer \<Rightarrow> 'f arg option" where
  "deref heap p =
     (case p of field_ptr a fld \<Rightarrow>
        if a < length heap then
          (let payload = kernelParmData (heap ! a)
           in Some (case fld of
                      callable_field \<Rightarrow> callable_arg (kd_callable payload)
                    | begin_field \<Rightarrow> int_arg (kd_begin payload)
                    | end_field \<Rightarrow> int_arg (kd_end payload)
                    | step_field \<Rightarrow> int_arg (kd_step payload)))
        else None)"

section \<open>The nested-graph launch: \<^verbatim>\<open>muda/graph/details/graph_viewer.inl\<close>\<close>

type_synonym cudaGraphExec_t = nat
type_synonym cudaError_t = int

definition cudaSuccess :: cudaError_t where
  "cudaSuccess = 0"

text \<open>The two stream handles the CUDA device runtime reserves for launches from a graph.\<close>

definition cudaStreamGraphTailLaunch :: cudaStream_t where
  "cudaStreamGraphTailLaunch = 256"

definition cudaStreamGraphFireAndForget :: cudaStream_t where
  "cudaStreamGraphFireAndForget = 512"

text \<open>Which pass compiles the code: \<^verbatim>\<open>__CUDA_ARCH__\<close> is defined in device code only.\<close>

datatype target = Host | Device

record GraphViewer =
  m_graph :: cudaGraphExec_t
  kernel_name :: string
  name :: string

text \<open>
  The CUDA runtime is a parameter: what \<^verbatim>\<open>cudaGraphLaunch\<close> returns and the text
  \<^verbatim>\<open>cudaGetErrorString\<close> gives for a code.
\<close>

record runtime =
  cudaGraphLaunch :: "cudaGraphExec_t \<Rightarrow> cudaStream_t \<Rightarrow> cudaError_t"
  cudaGetErrorString :: "cudaError_t \<Rightarrow> string"

text \<open>
  Modelled from the spec: the macros \<^verbatim>\<open>MUDA_KERNEL_ASSERT\<close> and
  \<^verbatim>\<open>MUDA_KERNEL_ERROR_WITH_LOCATION\<close> are defined outside the sources at hand. By the spec
  both conditions are fatal for the execution unit, so each ends the call with a report:
  the failed assertion with its message, the error with the arguments of its format
  (kernel name, viewer name, error string, error code, graph).
\<close>

datatype report =
    kernel_assert_failed string
  | kernel_error string string string int cudaGraphExec_t

definition GraphViewer_ctor :: "cudaGraphExec_t \<Rightarrow> string \<Rightarrow> string \<Rightarrow> GraphViewer" where
  "GraphViewer_ctor graph kn n = \<lparr>m_graph = graph, kernel_name = kn, name = n\<rparr>"

definition invalid_stream_message :: string where
  "invalid_stream_message =
     ''Launch Graph on device with invalid stream! '' @
     ''Only Stream::GraphTailLaunch{} and Stream::GraphFireAndForget{} are allowed''"

definition launch :: "target \<Rightarrow> runtime \<Rightarrow> GraphViewer \<Rightarrow> cudaStream_t \<Rightarrow> report + unit" where
  "launch tgt rt gv stream_arg =
     (if tgt = Device \<and>
         \<not> (stream_arg = cudaStreamGraphTailLaunch \<or> stream_arg = cudaStreamGraphFireAndForget)
      then Inl (kernel_assert_failed invalid_stream_message)
      else
        let graph_viewer_error_code = cudaGraphLaunch rt (m_graph gv) stream_arg
        in if graph_viewer_error_code \<noteq> cudaSuccess then
             (let error_string = cudaGetErrorString rt graph_viewer_error_code
              in Inl (kernel_error (kernel_name gv) (name gv) error_string
                        graph_viewer_error_code (m_graph gv)))
           else Inr ())"

definition tail_launch :: "target \<Rightarrow> runtime \<Rightarrow> GraphViewer \<Rightarrow> report + unit" where
  "tail_launch tgt rt gv =
     (if tgt = Device then launch tgt rt gv cudaStreamGraphTailLaunch else Inr ())"

definition fire_and_forget :: "target \<Rightarrow> runtime \<Rightarrow> GraphViewer \<Rightarrow> report + unit" where
  "fire_and_forget tgt rt gv =
     (if tgt = Device then launch tgt rt gv cudaStreamGraphFireAndForget else Inr ())"

text \<open>What a report says about the child graph and about the runtime's diagnostic.\<close>

fun reported_graph :: "report \<Rightarrow> cudaGraphExec_t option" where
  "reported_graph (kernel_assert_failed msg) = None"
| "reported_graph (kernel_error kn n es code g) = Some g"

fun reported_diagnostic :: "report \<Rightarrow> (string \<times> int) option" where
  "reported_diagnostic (kernel_assert_failed msg) = None"
| "reported_diagnostic (kernel_error kn n es code g) = Some (es, code)"

section \<open>The device scalar: \<^verbatim>\<open>device_var.inl\<close>, \<^verbatim>\<open>var_view.inl\<close> and \<^verbatim>\<open>var.h\<close>\<close>

subsection \<open>Storage\<close>

text \<open>
  A cell of storage that has been allocated holds a value or is still uninitialised.
  The state of the memory: the allocated cells by address, the next address the
  allocator gives out, and the transfers made so far.
\<close>

datatype 'a cell = Uninit | Val 'a

datatype transfer =
    host_to_device nat
  | device_to_host nat
  | device_to_device nat nat

record 'a memory =
  cells :: "nat \<Rightarrow> 'a cell option"
  next_free :: nat
  transfers :: "transfer list"

text \<open>
  Modelled from the spec: \<^verbatim>\<open>Memory().alloc(&m_data, sizeof(T))\<close> is defined outside the
  sources at hand. By the spec it allocates storage for one element, whose value is
  uninitialised.
\<close>

definition Memory_alloc :: "'a memory \<Rightarrow> nat option \<times> 'a memory" where
  "Memory_alloc mem =
     (Some (next_free mem),
      mem\<lparr>cells := (cells mem)(next_free mem \<mapsto> Uninit), next_free := Suc (next_free mem)\<rparr>)"

text \<open>A view holds the raw storage address; \<open>None\<close> is the null pointer.\<close>

datatype VarView = VarView (view_data: "nat option")

text \<open>
  Modelled from the spec: \<^verbatim>\<open>BufferLaunch().copy(dst, src).wait()\<close> is defined outside the
  sources at hand. By the spec it is a blocking transfer of one element from the source to
  the destination, and a failure of the transfer surfaces from the operation that asked
  for it. The transfer fails on a null pointer and on storage that is not allocated, and
  then changes nothing.
\<close>

definition BufferLaunch_copy_from_host ::
  "VarView \<Rightarrow> 'a \<Rightarrow> 'a memory \<Rightarrow> (error + unit) \<times> 'a memory" where
  "BufferLaunch_copy_from_host dst val mem =
     (case view_data dst of
        None \<Rightarrow> (Inl transfer_error, mem)
      | Some a \<Rightarrow>
          (case cells mem a of
             None \<Rightarrow> (Inl transfer_error, mem)
           | Some _ \<Rightarrow>
               (Inr (), mem\<lparr>cells := (cells mem)(a \<mapsto> Val val),
                             transfers := transfers mem @ [host_to_device a]\<rparr>)))"

definition BufferLaunch_copy_to_host ::
  "VarView \<Rightarrow> 'a memory \<Rightarrow> (error + 'a cell) \<times> 'a memory" where
  "BufferLaunch_copy_to_host src mem =
     (case view_data src of
        None \<Rightarrow> (Inl transfer_error, mem)
      | Some a \<Rightarrow>
          (case cells mem a of
             None \<Rightarrow> (Inl transfer_error, mem)
           | Some c \<Rightarrow> (Inr c, mem\<lparr>transfers := transfers mem @ [device_to_host a]\<rparr>)))"

definition BufferLaunch_copy_view ::
  "VarView \<Rightarrow> VarView \<Rightarrow> 'a memory \<Rightarrow> (error + unit) \<times> 'a memory" where
  "BufferLaunch_copy_view dst src mem =
     (case (view_data dst, view_data src) of
        (Some a, Some b) \<Rightarrow>
          (case (cells mem a, cells mem b) of
             (Some _, Some c) \<Rightarrow>
               (Inr (), mem\<lparr>cells := (cells mem)(a \<mapsto> c),
                             transfers := transfers mem @ [device_to_device a b]\<rparr>)
           | _ \<Rightarrow> (Inl transfer_error, mem))
      | _ \<Rightarrow> (Inl transfer_error, mem))"

subsection \<open>\<^verbatim>\<open>VarView\<close>\<close>

definition VarView_copy_from_host ::
  "VarView \<Rightarrow> 'a \<Rightarrow> 'a memory \<Rightarrow> (error + unit) \<times> 'a memory" where
  "VarView_copy_from_host this val mem = BufferLaunch_copy_from_host this val mem"

definition VarView_copy_to ::
  "VarView \<Rightarrow> 'a memory \<Rightarrow> (error + 'a cell) \<times> 'a memory" where
  "VarView_copy_to this mem = BufferLaunch_copy_to_host this mem"

definition VarView_copy_from ::
  "VarView \<Rightarrow> VarView \<Rightarrow> 'a memory \<Rightarrow> (error + unit) \<times> 'a memory" where
  "VarView_copy_from this val mem = BufferLaunch_copy_view this val mem"

subsection \<open>\<^verbatim>\<open>DeviceVar\<close>\<close>

text \<open>
  A \<^verbatim>\<open>DeviceVar<T>\<close> object: its own address (what \<^verbatim>\<open>this\<close> and \<^verbatim>\<open>&other\<close> compare) and
  its member \<^verbatim>\<open>m_data\<close>. An operation returns the object as it leaves it.
\<close>

record DeviceVar =
  object_address :: nat
  m_data :: "nat option"

text \<open>
  Modelled from the spec: \<^verbatim>\<open>DeviceVar::view()\<close> is defined outside the sources at hand.
  By the spec a view is a non-owning reference to the scalar's storage.
\<close>

definition view :: "DeviceVar \<Rightarrow> VarView" where
  "view this = VarView (m_data this)"

definition DeviceVar_default :: "nat \<Rightarrow> 'a memory \<Rightarrow> DeviceVar \<times> 'a memory" where
  "DeviceVar_default addr mem =
     (let (p, mem') = Memory_alloc mem
      in (\<lparr>object_address = addr, m_data = p\<rparr>, mem'))"

definition DeviceVar_from_value ::
  "nat \<Rightarrow> 'a \<Rightarrow> 'a memory \<Rightarrow> (error + DeviceVar) \<times> 'a memory" where
  "DeviceVar_from_value addr val mem =
     (let (p, mem') = Memory_alloc mem;
          this = \<lparr>object_address = addr, m_data = p\<rparr>
      in case VarView_copy_from_host (view this) val mem' of
           (Inl err, mem'') \<Rightarrow> (Inl err, mem'')
         | (Inr _, mem'') \<Rightarrow> (Inr this, mem''))"

definition DeviceVar_copy ::
  "nat \<Rightarrow> DeviceVar \<Rightarrow> 'a memory \<Rightarrow> (error + DeviceVar) \<times> 'a memory" where
  "DeviceVar_copy addr other mem =
     (let (p, mem') = Memory_alloc mem;
          this = \<lparr>object_address = addr, m_data = p\<rparr>
      in case VarView_copy_from (view this) (view other) mem' of
           (Inl err, mem'') \<Rightarrow> (Inl err, mem'')
         | (Inr _, mem'') \<Rightarrow> (Inr this, mem''))"

text \<open>The three assignment operators; each returns \<^verbatim>\<open>*this\<close>.\<close>

definition DeviceVar_assign ::
  "DeviceVar \<Rightarrow> DeviceVar \<Rightarrow> 'a memory \<Rightarrow> (error + DeviceVar) \<times> 'a memory" where
  "DeviceVar_assign this other mem =
     (if object_address this = object_address other then (Inr this, mem)
      else case VarView_copy_from (view this) (view other) mem of
             (Inl err, mem') \<Rightarrow> (Inl err, mem')
           | (Inr _, mem') \<Rightarrow> (Inr this, mem'))"

definition DeviceVar_assign_view ::
  "DeviceVar \<Rightarrow> VarView \<Rightarrow> 'a memory \<Rightarrow> (error + DeviceVar) \<times> 'a memory" where
  "DeviceVar_assign_view this other mem =
     (case VarView_copy_from (view this) other mem of
        (Inl err, mem') \<Rightarrow> (Inl err, mem')
      | (Inr _, mem') \<Rightarrow> (Inr this, mem'))"

definition DeviceVar_assign_value ::
  "DeviceVar \<Rightarrow> 'a \<Rightarrow> 'a memory \<Rightarrow> (error + DeviceVar) \<times> 'a memory" where
  "DeviceVar_assign_value this val mem =
     (case VarView_copy_from_host (view this) val mem of
        (Inl err, mem') \<Rightarrow> (Inl err, mem')
      | (Inr _, mem') \<Rightarrow> (Inr this, mem'))"

text \<open>The move constructor: the new object and the source as it is left.\<close>

definition DeviceVar_move :: "nat \<Rightarrow> DeviceVar \<Rightarrow> DeviceVar \<times> DeviceVar" where
  "DeviceVar_move addr other =
     (\<lparr>object_address = addr, m_data = m_data other\<rparr>, other\<lparr>m_data := None\<rparr>)"

text \<open>\<^verbatim>\<open>operator T() const\<close>: the host value read back.\<close>

definition DeviceVar_to_host :: "DeviceVar \<Rightarrow> 'a memory \<Rightarrow> (error + 'a cell) \<times> 'a memory" where
  "DeviceVar_to_host this mem = VarView_copy_to (view this) mem"

subsection \<open>\<^verbatim>\<open>details::var_base\<close>\<close>

text \<open>
  \<^verbatim>\<open>var_base<T, Allocator>\<close> owns one element given by \<^verbatim>\<open>Allocator().allocate(1)\<close>, writes
  it with \<^verbatim>\<open>thrust::fill_n(data(), 1, rhs)\<close> and reads it with
  \<^verbatim>\<open>thrust::copy_n(data(), 1, &t)\<close>. The two Thrust algorithms are those of the library:
  \<open>fill_n\<close> stores the value in the \<open>n\<close> cells from \<open>first\<close>, \<open>copy_n\<close> reads them; on
  storage that is not allocated they fail.
\<close>

definition allocate :: "nat \<Rightarrow> 'a memory \<Rightarrow> nat \<times> 'a memory" where
  "allocate n mem =
     (next_free mem,
      mem\<lparr>cells := (\<lambda>a. if next_free mem \<le> a \<and> a < next_free mem + n then Some Uninit
                          else cells mem a),
          next_free := next_free mem + n\<rparr>)"

definition allocated :: "'a memory \<Rightarrow> nat \<Rightarrow> nat \<Rightarrow> bool" where
  "allocated mem first n = list_all (\<lambda>a. cells mem a \<noteq> None) [first..<first + n]"

definition thrust_fill_n :: "nat \<Rightarrow> nat \<Rightarrow> 'a \<Rightarrow> 'a memory \<Rightarrow> (error + unit) \<times> 'a memory" where
  "thrust_fill_n first n val mem =
     (if allocated mem first n then
        (Inr (), mem\<lparr>cells := (\<lambda>a. if first \<le> a \<and> a < first + n then Some (Val val)
                                   else cells mem a)\<rparr>)
      else (Inl transfer_error, mem))"

definition thrust_copy_n :: "nat \<Rightarrow> nat \<Rightarrow> 'a memory \<Rightarrow> error + 'a cell list" where
  "thrust_copy_n first n mem =
     (case those (map (cells mem) [first..<first + n]) of
        None \<Rightarrow> Inl transfer_error
      | Some ts \<Rightarrow> Inr ts)"

record var_base =
  vb_data :: nat

definition var_base_assign ::
  "var_base \<Rightarrow> 'a \<Rightarrow> 'a memory \<Rightarrow> (error + var_base) \<times> 'a memory" where
  "var_base_assign this rhs mem =
     (case thrust_fill_n (vb_data this) 1 rhs mem of
        (Inl err, mem') \<Rightarrow> (Inl err, mem')
      | (Inr _, mem') \<Rightarrow> (Inr this, mem'))"

definition var_base_default :: "'a memory \<Rightarrow> var_base \<times> 'a memory" where
  "var_base_default mem = (let (p, mem') = allocate 1 mem in (\<lparr>vb_data = p\<rparr>, mem'))"

definition var_base_from_value :: "'a \<Rightarrow> 'a memory \<Rightarrow> (error + var_base) \<times> 'a memory" where
  "var_base_from_value val mem =
     (let (p, mem') = allocate 1 mem
      in var_base_assign \<lparr>vb_data = p\<rparr> val mem')"

definition var_base_to_host :: "var_base \<Rightarrow> 'a memory \<Rightarrow> error + 'a cell" where
  "var_base_to_host this mem =
     (case thrust_copy_n (vb_data this) 1 mem of
        Inl err \<Rightarrow> Inl err
      | Inr ts \<Rightarrow> (case ts of [] \<Rightarrow> Inl transfer_error | t # _ \<Rightarrow> Inr t))"

section \<open>Predicates of the statements\<close>



text \<open>The memory before anything is allocated.\<close>

definition empty_memory :: "'a memory" where
  "empty_memory = \<lparr>cells = (\<lambda>a. None), next_free = 0, transfers = []\<rparr>"

text \<open>
  An assignment keeps the storage of its destination: the object returned has the
  pointer and the identity of \<open>this\<close> (or, on a transfer error, the memory is as before),
  nothing is allocated and nothing is freed. It writes only the cell \<open>a\<close>, and the value
  \<open>c\<close> there.
\<close>

definition keeps_storage ::
  "DeviceVar \<Rightarrow> 'a memory \<Rightarrow> (error + DeviceVar) \<times> 'a memory \<Rightarrow> bool" where
  "keeps_storage this mem r =
     ((case fst r of
         Inr this' \<Rightarrow> m_data this' = m_data this \<and> object_address this' = object_address this
       | Inl err \<Rightarrow> snd r = mem) \<and>
      next_free (snd r) = next_free mem \<and>
      (\<forall>a. (cells (snd r) a = None) = (cells mem a = None)))"

definition writes_only ::
  "'a memory \<Rightarrow> 'a memory \<Rightarrow> nat \<Rightarrow> 'a cell \<Rightarrow> bool" where
  "writes_only mem mem' a c =
     (cells mem' a = Some c \<and> (\<forall>b. b \<noteq> a \<longrightarrow> cells mem' b = cells mem b))"

text \<open>
  The unit ids that the unit \<open>k\<close> of a grid-stride dispatch of \<open>M\<close> units works through
  in a range of \<open>n\<close> indices: \<open>k\<close>, \<open>k + M\<close>, \<open>k + 2 * M\<close>, ..., those below \<open>n\<close>.
\<close>

definition strided :: "nat \<Rightarrow> nat \<Rightarrow> nat \<Rightarrow> nat list" where
  "strided M n k = map (\<lambda>i. k + i * M) [0..<(n + M - 1 - k) div M]"

section \<open>Facts about the machine arithmetic and the kernels\<close>

lemma gridStrideLoop_exit:
  "\<not> begin + step * k < end \<Longrightarrow> gridStrideLoop stride begin end step k calls = Some calls"
  by (subst gridStrideLoop.simps) simp

lemma gridStrideLoop_step:
  "begin + step * k < end \<Longrightarrow>
   gridStrideLoop stride begin end step k calls =
   gridStrideLoop stride begin end step (k + stride) (calls @ [begin + step * k])"
  by (subst gridStrideLoop.simps) simp

lemma sint_diff_exact:
  fixes a b :: int32
  assumes "- (2 ^ 31) \<le> sint a - sint b" "sint a - sint b < 2 ^ 31"
  shows "sint (a - b) = sint a - sint b"
  using assms by (simp add: sint_word_diff signed_take_bit_int_eq_self)

lemma sint_mult_exact:
  fixes a b :: int32
  assumes "- (2 ^ 31) \<le> sint a * sint b" "sint a * sint b < 2 ^ 31"
  shows "sint (a * b) = sint a * sint b"
  using assms by (simp add: sint_word_mult signed_take_bit_int_eq_self)

section \<open>Validation\<close>

lemma checkInput_ok_iff:
  assumes "- (2 ^ 31) \<le> sint end - sint begin" "sint end - sint begin < 2 ^ 31"
    and "- (2 ^ 31) \<le> sint step * (sint end - sint begin)"
    and "sint step * (sint end - sint begin) < 2 ^ 31"
  shows "checkInput begin end step = Inr () \<longleftrightarrow>
         step \<noteq> 0 \<and> 0 \<le> sint step * (sint end - sint begin)"
proof -
  have d: "sint (end - begin) = sint end - sint begin"
    using assms(1,2) by (rule sint_diff_exact)
  have "sint (step * (end - begin)) = sint step * (sint end - sint begin)"
    using assms(3,4) sint_mult_exact [of step "end - begin"] by (simp add: d)
  then show ?thesis
    by (auto simp: checkInput_def word_sless_alt)
qed








section \<open>Dispatch on a descending range\<close>

text \<open>
  Claim C1, evaluated at \<open>begin = 10\<close>, \<open>end = 0\<close>, \<open>step = -1\<close> with \<open>blockDim = 4\<close> and no
  grid dimension configured. The range passes \<open>checkInput\<close>, three blocks of four threads
  are dispatched, and no thread calls \<open>f\<close>: every index \<open>10 - tid\<close> fails the test
  \<^verbatim>\<open>i < end\<close>.
\<close>

theorem bounded_dispatch_descending:
  "parallel_for_apply (parallel_for_block 4 0 0) 10 0 (- 1) () [] =
     (Inr (), [\<lparr>l_kernel = ParallelForKernel, l_gridDim = 3, l_blockDim = 4, l_sharedMem = 0,
                l_stream = 0, l_f = (), l_begin = 10, l_end = 0, l_step = - 1\<rparr>]) \<and>
   invocations (snd (parallel_for_apply (parallel_for_block 4 0 0) 10 0 (- 1) () [])) = Some []"
  by (simp add: parallel_for_apply_def parallel_for_block_def checkInput_def calculateGridDim_def
     int_div_def int_rem_def word_sless_alt word_sle_eq signed_divide_int_def signed_modulo_int_def
     invocations_def run_launch_def units_def upt_rec run_unit_def parallelForKernel_def)

text \<open>
  On the descending range \<open>begin = 5\<close>, \<open>end = 3\<close>, \<open>step = -1\<close> the one call is on 2,
  which is not an index of the range: of the four threads only the last passes the test.
\<close>

lemma bounded_dispatch_descending_outside:
  "invocations (snd (parallel_for_apply (parallel_for_block 4 0 0) 5 3 (- 1) () [])) =
     Some [2]"
  by (simp add: parallel_for_apply_def parallel_for_block_def checkInput_def calculateGridDim_def
     int_div_def int_rem_def word_sless_alt word_sle_eq signed_divide_int_def signed_modulo_int_def
     invocations_def run_launch_def units_def upt_rec run_unit_def parallelForKernel_def)

text \<open>
  The comparison \<^verbatim>\<open>i < end\<close> is unsigned, so an ascending range that crosses zero loses
  its negative indices: on \<open>begin = -2\<close>, \<open>end = 2\<close>, \<open>step = 1\<close> the calls are on 0 and 1.
\<close>

lemma bounded_dispatch_across_zero:
  "invocations (snd (parallel_for_apply (parallel_for_block 4 0 0) (- 2) 2 1 () [])) =
     Some [0, 1]"
  by (simp add: parallel_for_apply_def parallel_for_block_def checkInput_def calculateGridDim_def
     int_div_def int_rem_def word_sless_alt word_sle_eq signed_divide_int_def signed_modulo_int_def
     invocations_def run_launch_def units_def upt_rec run_unit_def parallelForKernel_def)

text \<open>
  Claim C2, evaluated at \<open>begin = 10\<close>, \<open>end = 0\<close>, \<open>step = -1\<close> with \<open>gridDim = 2\<close> and
  \<open>blockDim = 2\<close>: the range passes \<open>checkInput\<close>, the grid-stride kernel is dispatched,
  and each of its four loops ends before its first call.
\<close>

theorem grid_stride_dispatch_descending:
  "parallel_for_apply (parallel_for_grid 2 2 0 0) 10 0 (- 1) () [] =
     (Inr (), [\<lparr>l_kernel = GridStrideLoopKernel, l_gridDim = 2, l_blockDim = 2, l_sharedMem = 0,
                l_stream = 0, l_f = (), l_begin = 10, l_end = 0, l_step = - 1\<rparr>]) \<and>
   invocations (snd (parallel_for_apply (parallel_for_grid 2 2 0 0) 10 0 (- 1) () [])) = Some []"
  by (simp add: parallel_for_apply_def parallel_for_grid_def checkInput_def
      word_sless_alt word_sle_eq invocations_def run_launch_def units_def upt_rec run_unit_def
      gridStrideLoopKernel_def gridStrideLoop_exit)

text \<open>
  On the empty range \<open>begin = end = 5\<close> with \<open>step = -1\<close>, one block of two units: the
  second unit calls \<open>f\<close> on 4, 2 and 0.
\<close>

lemma grid_stride_dispatch_empty_descending:
  "invocations (snd (parallel_for_apply (parallel_for_grid 1 2 0 0) 5 5 (- 1) () [])) =
     Some [4, 2, 0]"
  by (simp add: parallel_for_apply_def parallel_for_grid_def checkInput_def
      word_sless_alt word_sle_eq invocations_def run_launch_def units_def upt_rec run_unit_def
      gridStrideLoopKernel_def gridStrideLoop_exit gridStrideLoop_step)

section \<open>Dispatch on an empty range\<close>

text \<open>
  On every empty range (\<open>begin = end\<close>, \<open>step \<noteq> 0\<close>) the call succeeds. Only the bounded
  branch tests \<^verbatim>\<open>begin != end\<close> before it launches: the grid-stride branch issues its
  dispatch whatever the range.
\<close>

lemma apply_empty_range:
  assumes "step \<noteq> 0"
  shows "parallel_for_apply pf begin begin step f issued =
     (Inr (),
      if gridDim pf \<le>s 0 then issued
      else issued @
        [\<lparr>l_kernel = GridStrideLoopKernel, l_gridDim = gridDim pf, l_blockDim = blockDim pf,
          l_sharedMem = sharedMemSize pf, l_stream = stream pf, l_f = f,
          l_begin = begin, l_end = begin, l_step = step\<rparr>])"
  using assms by (simp add: parallel_for_apply_def checkInput_def word_sless_alt)

text \<open>
  Claim C4 says that on an empty range no kernel launch is issued, under the bounded and
  under the grid-stride strategy. The code diverges under the grid-stride strategy. At
  \<open>begin = end = 5\<close>, \<open>step = -1\<close>, \<open>gridDim = 1\<close>, \<open>blockDim = 2\<close> the call issues one dispatch
  of the grid-stride kernel, and the units of that dispatch call \<open>f\<close> on 4, 2 and 0; at
  \<open>begin = end = 5\<close>, \<open>step = 1\<close>, \<open>gridDim = 2\<close>, \<open>blockDim = 2\<close> it issues one dispatch as
  well. The bounded strategy on the same empty range issues none.
\<close>

theorem empty_domain_grid_stride_dispatches:
  "parallel_for_apply (parallel_for_grid 1 2 0 0) 5 5 (- 1) () [] =
     (Inr (), [\<lparr>l_kernel = GridStrideLoopKernel, l_gridDim = 1, l_blockDim = 2,
                l_sharedMem = 0, l_stream = 0, l_f = (),
                l_begin = 5, l_end = 5, l_step = - 1\<rparr>]) \<and>
   invocations (snd (parallel_for_apply (parallel_for_grid 1 2 0 0) 5 5 (- 1) () [])) =
     Some [4, 2, 0] \<and>
   parallel_for_apply (parallel_for_grid 2 2 0 0) 5 5 1 () [] =
     (Inr (), [\<lparr>l_kernel = GridStrideLoopKernel, l_gridDim = 2, l_blockDim = 2,
                l_sharedMem = 0, l_stream = 0, l_f = (),
                l_begin = 5, l_end = 5, l_step = 1\<rparr>]) \<and>
   parallel_for_apply (parallel_for_block 2 0 0) 5 5 (- 1) () [] = (Inr (), [])"
  by (simp add: parallel_for_apply_def parallel_for_grid_def parallel_for_block_def checkInput_def
      word_sless_alt word_sle_eq invocations_def run_launch_def units_def upt_rec run_unit_def
      gridStrideLoopKernel_def gridStrideLoop_exit gridStrideLoop_step)

section \<open>The grid dimension of the bounded strategy\<close>

lemma nonneg_ceiling_div:
  fixes x y :: int
  assumes "0 \<le> x" "0 < y"
  shows "\<lceil>real_of_int x / real_of_int y\<rceil> = x div y + (if x mod y \<noteq> 0 then 1 else 0)"
  using assms by (simp add: ceiling_divide_eq_div zdiv_zminus1_eq_if)

lemma sdiv_ceiling:
  fixes a b :: int
  assumes "b \<noteq> 0" "0 \<le> b * a"
  shows "a sdiv b + (if a smod b \<noteq> 0 then 1 else 0) = \<lceil>real_of_int a / real_of_int b\<rceil>"
proof (cases "a = 0")
  case True
  then show ?thesis by (simp add: signed_modulo_int_def)
next
  case False
  with assms have sg: "sgn a = sgn b"
    by (auto simp: zero_le_mult_iff sgn_if)
  have q: "a sdiv b = \<bar>a\<bar> div \<bar>b\<bar>"
    using sg False by (simp add: signed_divide_int_def sgn_if split: if_splits)
  have r: "a smod b \<noteq> 0 \<longleftrightarrow> \<bar>a\<bar> mod \<bar>b\<bar> \<noteq> 0"
    using False by (simp add: signed_modulo_int_def sgn_if)
  have "real_of_int a / real_of_int b = real_of_int \<bar>a\<bar> / real_of_int \<bar>b\<bar>"
    using sg False assms(1) by (auto simp: sgn_if split: if_splits)
  then have "\<lceil>real_of_int a / real_of_int b\<rceil> = \<bar>a\<bar> div \<bar>b\<bar> + (if \<bar>a\<bar> mod \<bar>b\<bar> \<noteq> 0 then 1 else 0)"
    using nonneg_ceiling_div [of "\<bar>a\<bar>" "\<bar>b\<bar>"] assms(1) by simp
  with q r show ?thesis by simp
qed

lemma sint_word_of_int_exact:
  assumes "- (2 ^ 31) \<le> k" "k < 2 ^ 31"
  shows "sint (word_of_int k :: int32) = k"
  using assms by (simp add: sint_sbintrunc' signed_take_bit_int_eq_self)

lemma smod_bound:
  fixes a b :: int
  assumes "b \<noteq> 0"
  shows "\<bar>a smod b\<bar> < \<bar>b\<bar>"
  using assms by (simp add: signed_modulo_int_def abs_mult abs_sgn_eq)

lemma sint_bounds32: "- (2 ^ 31) \<le> sint (w :: int32)" "sint (w :: int32) < 2 ^ 31"
  using sint_ge [of w] sint_lt [of w] by simp_all

lemma sint_n0: "sint (b :: int32) = 0 \<Longrightarrow> b = 0"
  by (simp add: signed_eq_0_iff)

lemma int_rem_sint:
  assumes "b \<noteq> 0"
  shows "sint (int_rem a b) = sint a smod sint b"
proof -
  have "sint b \<noteq> 0" using assms by (metis sint_n0)
  then have "\<bar>sint a smod sint b\<bar> < \<bar>sint b\<bar>" by (rule smod_bound)
  moreover have "\<bar>sint b\<bar> \<le> 2 ^ 31" using sint_bounds32 [of b] by simp
  ultimately show ?thesis
    unfolding int_rem_def by (intro sint_word_of_int_exact) simp_all
qed

lemma sdiv_nonneg_bounds:
  fixes a b :: int
  assumes "b \<noteq> 0" "0 \<le> b * a"
  shows "0 \<le> a sdiv b" "a sdiv b \<le> \<bar>a\<bar>" "a sdiv b = \<bar>a\<bar> div \<bar>b\<bar>"
proof -
  show q: "a sdiv b = \<bar>a\<bar> div \<bar>b\<bar>"
  proof (cases "a = 0")
    case True then show ?thesis by simp
  next
    case False
    with assms have "sgn a = sgn b" by (auto simp: zero_le_mult_iff sgn_if)
    then show ?thesis using False by (simp add: signed_divide_int_def sgn_if split: if_splits)
  qed
  show "0 \<le> a sdiv b" unfolding q by (simp add: pos_imp_zdiv_nonneg_iff assms(1))
  have "\<bar>a\<bar> div \<bar>b\<bar> \<le> \<bar>a\<bar>"
    using zdiv_mono2 [of "\<bar>a\<bar>" 1 "\<bar>b\<bar>"] assms(1) by simp
  then show "a sdiv b \<le> \<bar>a\<bar>" unfolding q .
qed

lemma ceil_sdiv_word:
  fixes x y :: int32
  assumes y: "y \<noteq> 0" and sg: "0 \<le> sint y * sint x"
    and ov: "\<not> (sint x = - (2 ^ 31) \<and> y = - 1)"
  shows "sint (int_div x y + (if int_rem x y \<noteq> 0 then 1 else 0)) =
           \<lceil>real_of_int (sint x) / real_of_int (sint y)\<rceil>"
    and "0 \<le> \<lceil>real_of_int (sint x) / real_of_int (sint y)\<rceil>"
proof -
  let ?a = "sint x" and ?b = "sint y"
  have b0: "?b \<noteq> 0" using y by (metis sint_n0)
  have bm1: "?b \<noteq> - 1" if "?a = - (2 ^ 31)"
  proof
    assume "?b = - 1"
    then have "sint y = sint (- 1 :: int32)" by simp
    then have "y = - 1" by (metis signed_word_eqI)
    with ov that show False by simp
  qed
  note qs = sdiv_nonneg_bounds [OF b0 sg]
  have ab: "- (2 ^ 31) \<le> ?a" "?a < 2 ^ 31" "- (2 ^ 31) \<le> ?b" "?b < 2 ^ 31"
    using sint_bounds32 by auto
  have r: "sint (int_rem x y) = ?a smod ?b" using y by (rule int_rem_sint)
  have rz: "int_rem x y \<noteq> 0 \<longleftrightarrow> ?a smod ?b \<noteq> 0"
    using r by (metis sint_n0 sint_0)
  have rb: "\<bar>?a smod ?b\<bar> < \<bar>?b\<bar>" using b0 by (rule smod_bound)
  have qlt: "?a sdiv ?b < 2 ^ 31"
  proof (cases "?a = - (2 ^ 31)")
    case True
    then have "\<bar>?b\<bar> \<ge> 2" using bm1 b0 sg by (auto simp: zero_le_mult_iff)
    then have "\<bar>?a\<bar> div \<bar>?b\<bar> \<le> \<bar>?a\<bar> div 2"
      by (simp add: zdiv_mono2)
    then show ?thesis using True qs(3) by simp
  next
    case False
    then have "\<bar>?a\<bar> < 2 ^ 31" using ab by simp
    then show ?thesis using qs(2) by linarith
  qed
  have q: "sint (int_div x y) = ?a sdiv ?b"
    unfolding int_div_def using qs(1) qlt by (intro sint_word_of_int_exact) simp_all
  have c: "?a sdiv ?b + (if ?a smod ?b \<noteq> 0 then 1 else 0) = \<lceil>real_of_int ?a / real_of_int ?b\<rceil>"
    using b0 sg by (rule sdiv_ceiling)
  have "0 \<le> ?a sdiv ?b + (if ?a smod ?b \<noteq> 0 then 1 else 0)"
    using qs(1) by simp
  then show nn: "0 \<le> \<lceil>real_of_int ?a / real_of_int ?b\<rceil>"
    unfolding c .
  have nlt: "?a sdiv ?b + 1 < 2 ^ 31" if "?a smod ?b \<noteq> 0"
  proof -
    have "\<bar>?b\<bar> \<ge> 2" using rb that by linarith
    then have "\<bar>?a\<bar> div \<bar>?b\<bar> \<le> \<bar>?a\<bar> div 2"
      by (simp add: zdiv_mono2)
    moreover have "\<bar>?a\<bar> \<le> 2 ^ 31" using ab by simp
    ultimately show ?thesis using qs(3) by simp
  qed
  show "sint (int_div x y + (if int_rem x y \<noteq> 0 then 1 else 0)) =
           \<lceil>real_of_int ?a / real_of_int ?b\<rceil>"
  proof (cases "?a smod ?b \<noteq> 0")
    case True
    then have "sint (int_div x y + 1) = ?a sdiv ?b + 1"
      using nlt qs(1) q by (simp add: sint_word_ariths signed_take_bit_int_eq_self)
    then show ?thesis using True rz c by simp
  next
    case False
    then show ?thesis using rz c q by simp
  qed
qed

lemma smod_nonneg:
  fixes a b :: int
  assumes "0 \<le> a"
  shows "0 \<le> a smod b"
  using assms by (cases "b = 0") (simp_all add: signed_modulo_int_def sgn_if)

lemma calculateGridDim_value:
  assumes "step \<noteq> 0" and "0 \<le> sint step * (sint end - sint begin)"
    and "0 <s blockDim pf"
    and "- (2 ^ 31) \<le> sint end - sint begin" and "sint end - sint begin < 2 ^ 31"
    and "\<not> (sint end - sint begin = - (2 ^ 31) \<and> step = - 1)"
  shows "\<exists>g. calculateGridDim pf begin end step = Inr g \<and>
            sint g = \<lceil>real_of_int \<lceil>real_of_int (sint end - sint begin) / real_of_int (sint step)\<rceil>
                         / real_of_int (sint (blockDim pf))\<rceil>"
proof -
  define stride where "stride = end - begin"
  define n where "n = int_div stride step + (if int_rem stride step \<noteq> 0 then 1 else 0)"
  define bd where "bd = blockDim pf"
  have d: "sint stride = sint end - sint begin"
    unfolding stride_def using assms(4,5) by (rule sint_diff_exact)
  have bd0: "bd \<noteq> 0" "0 < sint bd"
    using assms(3) by (auto simp: bd_def word_sless_alt)
  have n1: "sint n = \<lceil>real_of_int (sint stride) / real_of_int (sint step)\<rceil>"
    and n2: "0 \<le> \<lceil>real_of_int (sint stride) / real_of_int (sint step)\<rceil>"
    unfolding n_def using assms(1,2,6) by (intro ceil_sdiv_word; simp add: d)+
  have nn: "0 \<le> sint n" using n1 n2 by simp
  have r: "sint (int_rem n bd) = sint n smod sint bd" using bd0(1) by (rule int_rem_sint)
  have "0 \<le> sint (int_rem n bd)" unfolding r using nn by (rule smod_nonneg)
  then have req: "0 <s int_rem n bd \<longleftrightarrow> int_rem n bd \<noteq> 0"
    using sint_n0 [of "int_rem n bd"] by (auto simp: word_sless_alt less_le)
  have g: "sint (int_div n bd + (if int_rem n bd \<noteq> 0 then 1 else 0)) =
           \<lceil>real_of_int (sint n) / real_of_int (sint bd)\<rceil>"
    using bd0 nn by (intro ceil_sdiv_word(1)) auto
  have "calculateGridDim pf begin end step =
          Inr (int_div n bd + (if int_rem n bd \<noteq> 0 then 1 else 0))"
    using assms(1) bd0(1) req
    by (simp add: calculateGridDim_def Let_def stride_def n_def bd_def)
  moreover have "sint (int_div n bd + (if int_rem n bd \<noteq> 0 then 1 else 0)) =
      \<lceil>real_of_int \<lceil>real_of_int (sint end - sint begin) / real_of_int (sint step)\<rceil>
          / real_of_int (sint bd)\<rceil>"
    using g by (simp only: n1 d)
  ultimately show ?thesis unfolding bd_def by blast
qed

text \<open>
  Claim C5 as stated fails where \<^verbatim>\<open>end - begin\<close> overflows: the range \<open>begin = -1431655766\<close>,
  \<open>end = 1431655765\<close>, \<open>step = 3\<close> is valid and passes \<open>checkInput\<close>, and with
  \<open>blockDim = 4\<close> the ceilings give 238609295 blocks, but \<open>calculateGridDim\<close> returns
  \<open>-119304646\<close>.
\<close>

theorem calculateGridDim_on_overflow:
  "(3 :: int32) \<noteq> 0 \<and>
   0 \<le> sint (3 :: int32) * (sint (1431655765 :: int32) - sint (- 1431655766 :: int32)) \<and>
   0 <s blockDim (parallel_for_block 4 0 0) \<and>
   checkInput (- 1431655766) 1431655765 3 = Inr () \<and>
   calculateGridDim (parallel_for_block 4 0 0) (- 1431655766) 1431655765 3 = Inr (- 119304646) \<and>
   \<lceil>real_of_int \<lceil>real_of_int (sint (1431655765 :: int32) - sint (- 1431655766 :: int32))
        / real_of_int (sint (3 :: int32))\<rceil>
      / real_of_int (sint (blockDim (parallel_for_block 4 0 0)))\<rceil> = 238609295"
  by (simp add: checkInput_def calculateGridDim_def parallel_for_block_def int_div_def int_rem_def
      signed_divide_int_def signed_modulo_int_def word_sless_alt)

text \<open>
  Claim C5, amended. For a valid range (\<open>step \<noteq> 0\<close>, \<open>step * (end - begin) \<ge> 0\<close>) and a
  positive \<open>blockDim\<close>, where \<^verbatim>\<open>end - begin\<close> and \<^verbatim>\<open>(end - begin) / step\<close> are representable as
  32-bit \<^verbatim>\<open>int\<close>, \<open>calculateGridDim\<close> returns the ceiling of \<open>nMinThreads / blockDim\<close>, where
  \<open>nMinThreads\<close> is the ceiling of \<open>(end - begin) / step\<close>. At \<open>begin = 0\<close>, \<open>end = 10\<close>,
  \<open>step = 1\<close>, \<open>blockDim = 4\<close> it returns 3.
\<close>

theorem calculateGridDim_ceiling:
  assumes "step \<noteq> 0" and "0 \<le> sint step * (sint end - sint begin)"
    and "0 <s blockDim pf"
    and "- (2 ^ 31) \<le> sint end - sint begin" and "sint end - sint begin < 2 ^ 31"
    and "\<not> (sint end - sint begin = - (2 ^ 31) \<and> step = - 1)"
  shows "(\<exists>g. calculateGridDim pf begin end step = Inr g \<and>
            sint g = \<lceil>real_of_int \<lceil>real_of_int (sint end - sint begin) / real_of_int (sint step)\<rceil>
                         / real_of_int (sint (blockDim pf))\<rceil>) \<and>
         calculateGridDim (parallel_for_block 4 smem st) 0 10 1 = Inr 3"
proof -
  have "calculateGridDim (parallel_for_block 4 smem st) 0 10 1 = Inr 3"
    by (simp add: calculateGridDim_def parallel_for_block_def int_div_def int_rem_def
        signed_divide_int_def signed_modulo_int_def word_sless_alt)
  with calculateGridDim_value [OF assms] show ?thesis by blast
qed

text \<open>The theorem at \<open>begin = 0\<close>, \<open>end = 10\<close>, \<open>step = 1\<close>, \<open>blockDim = 4\<close>.\<close>

theorem calculateGridDim_ceiling_witness:
  "\<exists>g. calculateGridDim (parallel_for_block 4 0 0) 0 10 1 = Inr g \<and> sint g = 3"
  using calculateGridDim_ceiling [of 1 10 0 "parallel_for_block 4 0 0"]
  by (simp add: parallel_for_block_def word_sless_alt)

section \<open>The descriptor of a dispatch\<close>

lemma asNodeParms_built:
  assumes "asNodeParms pf begin end step f heap = (Inr d, heap')"
  shows "checkInput begin end step = Inr ()"
    and "d = length heap"
    and "\<exists>g. (if gridDim pf \<le>s 0
              then calculateGridDim pf begin end step = Inr g \<and>
                   heap' = heap @
                     [\<lparr>kernelParmData = \<lparr>kd_begin = begin, kd_step = step, kd_end = end, kd_callable = f\<rparr>,
                       np_func = Some ParallelForKernel, np_gridDim = g,
                       np_blockDim = blockDim pf, np_sharedMemBytes = sharedMemSize pf,
                       np_args = payload_addresses (length heap)\<rparr>]
              else heap' = heap @
                     [\<lparr>kernelParmData = \<lparr>kd_begin = begin, kd_step = step, kd_end = end, kd_callable = f\<rparr>,
                       np_func = Some GridStrideLoopKernel, np_gridDim = gridDim pf,
                       np_blockDim = blockDim pf, np_sharedMemBytes = sharedMemSize pf,
                       np_args = payload_addresses (length heap)\<rparr>])"
  using assms
  by (auto simp: asNodeParms_def Let_def kernelNodeParms_ctor_def kernelData_ctor_def
        set_func_def set_gridDim_def set_blockDim_def set_sharedMemBytes_def parse_def
      split: sum.splits if_splits)

text \<open>
  Claim C6. Every descriptor that \<open>asNodeParms\<close> builds is new on the heap, leaves the
  descriptors before it as they were, and has exactly four argument pointers: the
  addresses of the fields \<open>callable\<close>, \<open>begin\<close>, \<open>end\<close> and \<open>step\<close>, in this order, of the
  payload of this same descriptor. Read through the heap they give the callable, \<open>begin\<close>,
  \<open>end\<close> and \<open>step\<close> of the call.
\<close>

theorem descriptor_argument_pointers:
  assumes "asNodeParms pf begin end step f heap = (Inr d, heap')"
  shows "d = length heap \<and> length heap' = Suc (length heap) \<and> take (length heap) heap' = heap \<and>
     length (np_args (heap' ! d)) = 4 \<and>
     np_args (heap' ! d) =
       [field_ptr d callable_field, field_ptr d begin_field,
        field_ptr d end_field, field_ptr d step_field] \<and>
     map (deref heap') (np_args (heap' ! d)) =
       [Some (callable_arg f), Some (int_arg begin), Some (int_arg end), Some (int_arg step)]"
  using asNodeParms_built(2,3) [OF assms]
  by (auto simp: payload_addresses_def deref_def split: if_splits)

text \<open>The descriptor built for \<open>begin = 0\<close>, \<open>end = 10\<close>, \<open>step = 1\<close> with \<open>blockDim = 4\<close>.\<close>

theorem descriptor_argument_pointers_witness:
  "asNodeParms (parallel_for_block 4 0 0) 0 10 1 (CHR ''f'') [] =
     (Inr 0,
      [\<lparr>kernelParmData = \<lparr>kd_begin = 0, kd_step = 1, kd_end = 10, kd_callable = CHR ''f''\<rparr>,
        np_func = Some ParallelForKernel, np_gridDim = 3, np_blockDim = 4,
        np_sharedMemBytes = 0,
        np_args = [field_ptr 0 callable_field, field_ptr 0 begin_field,
                   field_ptr 0 end_field, field_ptr 0 step_field]\<rparr>]) \<and>
   map (deref (snd (asNodeParms (parallel_for_block 4 0 0) 0 10 1 (CHR ''f'') [])))
     (np_args (snd (asNodeParms (parallel_for_block 4 0 0) 0 10 1 (CHR ''f'') []) ! 0)) =
     [Some (callable_arg (CHR ''f'')), Some (int_arg 0), Some (int_arg 10), Some (int_arg 1)]"
proof -
  have b: "asNodeParms (parallel_for_block 4 0 0) 0 10 1 (CHR ''f'') [] =
     (Inr 0,
      [\<lparr>kernelParmData = \<lparr>kd_begin = 0, kd_step = 1, kd_end = 10, kd_callable = CHR ''f''\<rparr>,
        np_func = Some ParallelForKernel, np_gridDim = 3, np_blockDim = 4,
        np_sharedMemBytes = 0,
        np_args = [field_ptr 0 callable_field, field_ptr 0 begin_field,
                   field_ptr 0 end_field, field_ptr 0 step_field]\<rparr>])"
    by (simp add: asNodeParms_def parallel_for_block_def checkInput_def calculateGridDim_def
        int_div_def int_rem_def signed_divide_int_def signed_modulo_int_def word_sless_alt
        word_sle_eq Let_def kernelNodeParms_ctor_def kernelData_ctor_def
        set_func_def set_gridDim_def set_blockDim_def set_sharedMemBytes_def parse_def
        payload_addresses_def)
  from descriptor_argument_pointers [OF b] b show ?thesis by simp
qed

lemma checkInput_Inl:
  "checkInput begin end step = Inl err \<Longrightarrow> \<exists>msg. err = logic_error msg"
  by (auto simp: checkInput_def split: if_splits)


lemma checkInput_step:
  "checkInput begin end step = Inr () \<Longrightarrow> step \<noteq> 0"
  by (auto simp: checkInput_def split: if_splits)



lemma asNodeParms_bounded:
  assumes "checkInput begin end step = Inr ()" "gridDim pf \<le>s 0"
    "calculateGridDim pf begin end step = Inr g"
  shows "asNodeParms pf begin end step f heap =
     (Inr (length heap),
      heap @ [\<lparr>kernelParmData = \<lparr>kd_begin = begin, kd_step = step, kd_end = end, kd_callable = f\<rparr>,
               np_func = Some ParallelForKernel, np_gridDim = g,
               np_blockDim = blockDim pf, np_sharedMemBytes = sharedMemSize pf,
               np_args = payload_addresses (length heap)\<rparr>])"
  using assms
  by (simp add: asNodeParms_def Let_def kernelNodeParms_ctor_def kernelData_ctor_def
        set_func_def set_gridDim_def set_blockDim_def set_sharedMemBytes_def parse_def)

text \<open>
  Where the two functions part, both under the bounded strategy. With \<open>blockDim = 0\<close> the
  grid dimension is a division by zero: \<open>asNodeParms\<close> computes it for every valid range,
  \<open>parallel_for_apply\<close> only for a range that is not empty. With \<open>blockDim \<noteq> 0\<close> and an
  empty range \<open>asNodeParms\<close> builds a descriptor of the bounded kernel with grid dimension
  0, and \<open>parallel_for_apply\<close> issues nothing.
\<close>

lemma bounded_zero_blockDim:
  assumes "checkInput begin end step = Inr ()" "gridDim pf \<le>s 0" "blockDim pf = 0"
  shows "asNodeParms pf begin end step f heap = (Inl division_by_zero, heap)"
    and "parallel_for_apply pf begin end step f issued =
           (if begin = end then Inr () else Inl division_by_zero, issued)"
  using assms
  by (simp_all add: asNodeParms_def parallel_for_apply_def Let_def calculateGridDim_def
      checkInput_step)

lemma bounded_empty_range:
  assumes "step \<noteq> 0" "gridDim pf \<le>s 0" "blockDim pf \<noteq> 0"
  shows "asNodeParms pf begin begin step f heap =
     (Inr (length heap),
      heap @ [\<lparr>kernelParmData = \<lparr>kd_begin = begin, kd_step = step, kd_end = begin, kd_callable = f\<rparr>,
               np_func = Some ParallelForKernel, np_gridDim = 0,
               np_blockDim = blockDim pf, np_sharedMemBytes = sharedMemSize pf,
               np_args = payload_addresses (length heap)\<rparr>])"
    and "parallel_for_apply pf begin begin step f issued = (Inr (), issued)"
proof -
  have ok: "checkInput begin begin step = Inr ()"
    using assms(1) by (simp add: checkInput_def word_sless_alt)
  have g: "calculateGridDim pf begin begin step = Inr 0"
    using assms(1,3) by (simp add: calculateGridDim_def Let_def int_div_def int_rem_def)
  show "asNodeParms pf begin begin step f heap =
     (Inr (length heap),
      heap @ [\<lparr>kernelParmData = \<lparr>kd_begin = begin, kd_step = step, kd_end = begin, kd_callable = f\<rparr>,
               np_func = Some ParallelForKernel, np_gridDim = 0,
               np_blockDim = blockDim pf, np_sharedMemBytes = sharedMemSize pf,
               np_args = payload_addresses (length heap)\<rparr>])"
    by (rule asNodeParms_bounded [OF ok assms(2) g])
  show "parallel_for_apply pf begin begin step f issued = (Inr (), issued)"
    using ok assms(2) by (simp add: parallel_for_apply_def)
qed




section \<open>The launch of a child graph\<close>

text \<open>
  Claim C9 as stated fails: on a stream that is neither of the two legal ones, the error
  signalled in device code is the failed assertion with its fixed message. It reports
  neither the child graph nor a diagnostic of the runtime.
\<close>

theorem invalid_stream_report_names_no_graph:
  "launch Device \<lparr>cudaGraphLaunch = (\<lambda>g s. 0), cudaGetErrorString = (\<lambda>c. [])\<rparr>
      (GraphViewer_ctor 1 [] []) 7 = Inl (kernel_assert_failed invalid_stream_message) \<and>
   \<not> (\<exists>r. launch Device \<lparr>cudaGraphLaunch = (\<lambda>g s. 0), cudaGetErrorString = (\<lambda>c. [])\<rparr>
              (GraphViewer_ctor 1 [] []) 7 = Inl r \<and>
            (reported_graph r = Some 1 \<or> reported_diagnostic r \<noteq> None))"
  by (simp add: launch_def cudaStreamGraphTailLaunch_def cudaStreamGraphFireAndForget_def)

text \<open>
  Claim C9, amended. In device code a launch on a stream that is neither the tail-launch
  nor the fire-and-forget stream signals the failed assertion with the fixed
  invalid-stream message, which names neither the child graph nor a diagnostic of the
  runtime. \<open>tail_launch\<close> and \<open>fire_and_forget\<close> never signal it, and return normally when
  \<^verbatim>\<open>cudaGraphLaunch\<close> succeeds. The child graph and the diagnostic of the runtime are
  reported by the launch-failure error. It is signalled whenever the context check has
  passed and \<^verbatim>\<open>cudaGraphLaunch\<close> returns a code other than success, so by \<open>tail_launch\<close>
  and \<open>fire_and_forget\<close> in device code whenever their launch fails, and it carries the
  kernel name, the viewer's name, the error string of that code, the code and the graph.
  Conversely a report that names the child graph or a diagnostic is this error, from a
  launch whose code was not success.
\<close>

theorem launch_context_check:
  "(stream_arg \<noteq> cudaStreamGraphTailLaunch \<and> stream_arg \<noteq> cudaStreamGraphFireAndForget \<longrightarrow>
      launch Device rt gv stream_arg = Inl (kernel_assert_failed invalid_stream_message)) \<and>
   reported_graph (kernel_assert_failed invalid_stream_message) = None \<and>
   reported_diagnostic (kernel_assert_failed invalid_stream_message) = None \<and>
   tail_launch tgt rt gv \<noteq> Inl (kernel_assert_failed msg) \<and>
   fire_and_forget tgt rt gv \<noteq> Inl (kernel_assert_failed msg) \<and>
   (cudaGraphLaunch rt (m_graph gv) cudaStreamGraphTailLaunch = cudaSuccess \<longrightarrow>
      tail_launch tgt rt gv = Inr ()) \<and>
   (cudaGraphLaunch rt (m_graph gv) cudaStreamGraphFireAndForget = cudaSuccess \<longrightarrow>
      fire_and_forget tgt rt gv = Inr ()) \<and>
   ((tgt = Host \<or> stream_arg = cudaStreamGraphTailLaunch \<or>
     stream_arg = cudaStreamGraphFireAndForget) \<and>
    cudaGraphLaunch rt (m_graph gv) stream_arg \<noteq> cudaSuccess \<longrightarrow>
      launch tgt rt gv stream_arg =
        Inl (kernel_error (kernel_name gv) (name gv)
              (cudaGetErrorString rt (cudaGraphLaunch rt (m_graph gv) stream_arg))
              (cudaGraphLaunch rt (m_graph gv) stream_arg) (m_graph gv))) \<and>
   (cudaGraphLaunch rt (m_graph gv) cudaStreamGraphTailLaunch \<noteq> cudaSuccess \<longrightarrow>
      tail_launch Device rt gv =
        Inl (kernel_error (kernel_name gv) (name gv)
              (cudaGetErrorString rt (cudaGraphLaunch rt (m_graph gv) cudaStreamGraphTailLaunch))
              (cudaGraphLaunch rt (m_graph gv) cudaStreamGraphTailLaunch) (m_graph gv))) \<and>
   (cudaGraphLaunch rt (m_graph gv) cudaStreamGraphFireAndForget \<noteq> cudaSuccess \<longrightarrow>
      fire_and_forget Device rt gv =
        Inl (kernel_error (kernel_name gv) (name gv)
              (cudaGetErrorString rt (cudaGraphLaunch rt (m_graph gv) cudaStreamGraphFireAndForget))
              (cudaGraphLaunch rt (m_graph gv) cudaStreamGraphFireAndForget) (m_graph gv))) \<and>
   (launch tgt rt gv stream_arg = Inl r \<and> (reported_graph r \<noteq> None \<or> reported_diagnostic r \<noteq> None) \<longrightarrow>
      cudaGraphLaunch rt (m_graph gv) stream_arg \<noteq> cudaSuccess \<and>
      r = kernel_error (kernel_name gv) (name gv)
            (cudaGetErrorString rt (cudaGraphLaunch rt (m_graph gv) stream_arg))
            (cudaGraphLaunch rt (m_graph gv) stream_arg) (m_graph gv))"
  by (auto simp: launch_def tail_launch_def fire_and_forget_def Let_def split: if_splits)

text \<open>
  The theorem at stream 7 with a runtime whose launches succeed, and with a runtime whose
  launches fail with code 4: both entry points signal the launch-failure error, which
  carries the graph 1, the code 4 and its error string.
\<close>

theorem launch_context_check_witness:
  "launch Device \<lparr>cudaGraphLaunch = (\<lambda>g s. 0), cudaGetErrorString = (\<lambda>c. [])\<rparr>
      (GraphViewer_ctor 1 [] []) 7 = Inl (kernel_assert_failed invalid_stream_message) \<and>
   tail_launch Device \<lparr>cudaGraphLaunch = (\<lambda>g s. 0), cudaGetErrorString = (\<lambda>c. [])\<rparr>
      (GraphViewer_ctor 1 [] []) = Inr () \<and>
   fire_and_forget Device \<lparr>cudaGraphLaunch = (\<lambda>g s. 0), cudaGetErrorString = (\<lambda>c. [])\<rparr>
      (GraphViewer_ctor 1 [] []) = Inr () \<and>
   tail_launch Device \<lparr>cudaGraphLaunch = (\<lambda>g s. 4), cudaGetErrorString = (\<lambda>c. ''e'')\<rparr>
      (GraphViewer_ctor 1 ''k'' ''n'') = Inl (kernel_error ''k'' ''n'' ''e'' 4 1) \<and>
   fire_and_forget Device \<lparr>cudaGraphLaunch = (\<lambda>g s. 4), cudaGetErrorString = (\<lambda>c. ''e'')\<rparr>
      (GraphViewer_ctor 1 ''k'' ''n'') = Inl (kernel_error ''k'' ''n'' ''e'' 4 1) \<and>
   launch Device \<lparr>cudaGraphLaunch = (\<lambda>g s. 4), cudaGetErrorString = (\<lambda>c. ''e'')\<rparr>
      (GraphViewer_ctor 1 ''k'' ''n'') cudaStreamGraphTailLaunch =
        Inl (kernel_error ''k'' ''n'' ''e'' 4 1) \<and>
   launch Device \<lparr>cudaGraphLaunch = (\<lambda>g s. 4), cudaGetErrorString = (\<lambda>c. ''e'')\<rparr>
      (GraphViewer_ctor 1 ''k'' ''n'') 7 = Inl (kernel_assert_failed invalid_stream_message)"
  using launch_context_check [of 7 "\<lparr>cudaGraphLaunch = (\<lambda>g s. 0), cudaGetErrorString = (\<lambda>c. [])\<rparr>"
      "GraphViewer_ctor 1 [] []" Device]
    launch_context_check [of cudaStreamGraphTailLaunch
      "\<lparr>cudaGraphLaunch = (\<lambda>g s. 4), cudaGetErrorString = (\<lambda>c. ''e'')\<rparr>"
      "GraphViewer_ctor 1 ''k'' ''n''" Device]
    launch_context_check [of 7
      "\<lparr>cudaGraphLaunch = (\<lambda>g s. 4), cudaGetErrorString = (\<lambda>c. ''e'')\<rparr>"
      "GraphViewer_ctor 1 ''k'' ''n''" Device]
  by (simp add: cudaStreamGraphTailLaunch_def cudaStreamGraphFireAndForget_def cudaSuccess_def
      GraphViewer_ctor_def)

section \<open>The device scalar\<close>

lemma copy_from_host_live:
  assumes "m_data this = Some a" "cells mem a = Some c"
  shows "VarView_copy_from_host (view this) val mem =
           (Inr (), mem\<lparr>cells := (cells mem)(a \<mapsto> Val val),
                         transfers := transfers mem @ [host_to_device a]\<rparr>)"
  using assms
  by (simp add: VarView_copy_from_host_def BufferLaunch_copy_from_host_def view_def)

lemma to_host_live:
  assumes "m_data this = Some a" "cells mem a = Some c"
  shows "fst (DeviceVar_to_host this mem) = Inr c"
  using assms
  by (simp add: DeviceVar_to_host_def VarView_copy_to_def BufferLaunch_copy_to_host_def view_def)

lemma assign_value_live:
  assumes "m_data this = Some a" "cells mem a = Some c"
  shows "DeviceVar_assign_value this w mem =
           (Inr this, mem\<lparr>cells := (cells mem)(a \<mapsto> Val w),
                          transfers := transfers mem @ [host_to_device a]\<rparr>)"
  using copy_from_host_live [OF assms] by (simp add: DeviceVar_assign_value_def)

lemma from_value_result:
  "DeviceVar_from_value addr v mem =
     (Inr \<lparr>object_address = addr, m_data = Some (next_free mem)\<rparr>,
      mem\<lparr>cells := (cells mem)(next_free mem \<mapsto> Val v),
          next_free := Suc (next_free mem),
          transfers := transfers mem @ [host_to_device (next_free mem)]\<rparr>)"
  by (simp add: DeviceVar_from_value_def Memory_alloc_def VarView_copy_from_host_def
      BufferLaunch_copy_from_host_def view_def)

lemma allocated_one:
  "allocated mem first 1 \<longleftrightarrow> cells mem first \<noteq> None"
  "allocated mem first (Suc 0) \<longleftrightarrow> cells mem first \<noteq> None"
  by (simp_all add: allocated_def)

lemma var_base_assign_live:
  assumes "cells mem (vb_data this) = Some c"
  shows "var_base_assign this w mem =
           (Inr this, mem\<lparr>cells := (\<lambda>a. if vb_data this \<le> a \<and> a < vb_data this + 1
                                          then Some (Val w) else cells mem a)\<rparr>)"
  using assms by (simp add: var_base_assign_def thrust_fill_n_def allocated_one)

lemma var_base_to_host_live:
  assumes "cells mem (vb_data this) = Some c"
  shows "var_base_to_host this mem = Inr c"
  using assms by (simp add: var_base_to_host_def thrust_copy_n_def)

lemma var_base_from_value_result:
  "\<exists>mem1. var_base_from_value v mem = (Inr \<lparr>vb_data = next_free mem\<rparr>, mem1) \<and>
          cells mem1 (next_free mem) = Some (Val v)"
  by (simp add: var_base_from_value_def allocate_def var_base_assign_def thrust_fill_n_def
      allocated_one)

text \<open>
  Claim C8. A \<open>DeviceVar\<close> constructed from a host value \<open>v\<close> reads back as \<open>v\<close>; after a
  host value \<open>w\<close> is assigned to a scalar whose storage is allocated, whatever it held, it
  reads back as \<open>w\<close>. The same holds of \<open>var_base\<close>.
\<close>

theorem device_scalar_round_trip:
  "(\<exists>this mem1. DeviceVar_from_value addr v mem = (Inr this, mem1) \<and>
        fst (DeviceVar_to_host this mem1) = Inr (Val v)) \<and>
   (m_data dv = Some a \<and> cells mem a = Some c \<longrightarrow>
      (\<exists>mem2. DeviceVar_assign_value dv w mem = (Inr dv, mem2) \<and>
         fst (DeviceVar_to_host dv mem2) = Inr (Val w))) \<and>
   (\<exists>this mem1. var_base_from_value v mem = (Inr this, mem1) \<and>
        var_base_to_host this mem1 = Inr (Val v)) \<and>
   (cells mem (vb_data vb) = Some c \<longrightarrow>
      (\<exists>mem2. var_base_assign vb w mem = (Inr vb, mem2) \<and>
         var_base_to_host vb mem2 = Inr (Val w)))"
proof -
  have 1: "\<exists>this mem1. DeviceVar_from_value addr v mem = (Inr this, mem1) \<and>
        fst (DeviceVar_to_host this mem1) = Inr (Val v)"
    by (simp add: from_value_result DeviceVar_to_host_def VarView_copy_to_def
        BufferLaunch_copy_to_host_def view_def)
  have 2: "\<exists>mem2. DeviceVar_assign_value dv w mem = (Inr dv, mem2) \<and>
         fst (DeviceVar_to_host dv mem2) = Inr (Val w)"
    if "m_data dv = Some a" "cells mem a = Some c"
    by (simp add: assign_value_live [OF that] that(1) DeviceVar_to_host_def VarView_copy_to_def
        BufferLaunch_copy_to_host_def view_def)
  have 3: "\<exists>this mem1. var_base_from_value v mem = (Inr this, mem1) \<and>
        var_base_to_host this mem1 = Inr (Val v)"
    using var_base_from_value_result [of v mem]
    by (auto simp: var_base_to_host_def thrust_copy_n_def)
  have 4: "\<exists>mem2. var_base_assign vb w mem = (Inr vb, mem2) \<and>
         var_base_to_host vb mem2 = Inr (Val w)"
    if "cells mem (vb_data vb) = Some c"
    by (simp add: var_base_assign_live [OF that] var_base_to_host_def thrust_copy_n_def)
  from 1 2 3 4 show ?thesis by blast
qed

text \<open>
  The theorem in the empty memory: a scalar constructed from 1 reads back as 1, and after
  2 is assigned it reads back as 2.
\<close>

theorem device_scalar_round_trip_witness:
  "DeviceVar_from_value 0 (1::nat) empty_memory =
     (Inr \<lparr>object_address = 0, m_data = Some 0\<rparr>,
      \<lparr>cells = (\<lambda>a. None)(0 \<mapsto> Val 1), next_free = 1, transfers = [host_to_device 0]\<rparr>) \<and>
   fst (DeviceVar_to_host \<lparr>object_address = 0, m_data = Some 0\<rparr>
      \<lparr>cells = (\<lambda>a. None)(0 \<mapsto> Val (1::nat)), next_free = 1, transfers = [host_to_device 0]\<rparr>) =
     Inr (Val 1) \<and>
   (\<exists>mem2. DeviceVar_assign_value \<lparr>object_address = 0, m_data = Some 0\<rparr> 2
        \<lparr>cells = (\<lambda>a. None)(0 \<mapsto> Val (1::nat)), next_free = 1, transfers = [host_to_device 0]\<rparr> =
        (Inr \<lparr>object_address = 0, m_data = Some 0\<rparr>, mem2) \<and>
      fst (DeviceVar_to_host \<lparr>object_address = 0, m_data = Some 0\<rparr> mem2) = Inr (Val 2)) \<and>
   (\<exists>mem2. var_base_assign \<lparr>vb_data = 0\<rparr> 2
        \<lparr>cells = (\<lambda>a. None)(0 \<mapsto> Val (1::nat)), next_free = 1, transfers = [host_to_device 0]\<rparr> =
        (Inr \<lparr>vb_data = 0\<rparr>, mem2) \<and>
      var_base_to_host \<lparr>vb_data = 0\<rparr> mem2 = Inr (Val 2))"
  using device_scalar_round_trip [of 0 "1::nat" empty_memory]
    device_scalar_round_trip [of 0 "1::nat"
      "\<lparr>cells = (\<lambda>a. None)(0 \<mapsto> Val (1::nat)), next_free = 1, transfers = [host_to_device 0]\<rparr>"
      "\<lparr>object_address = 0, m_data = Some 0\<rparr>" 0 "Val 1" 2 "\<lparr>vb_data = 0\<rparr>"]
  by (auto simp: from_value_result empty_memory_def)

lemma copy_view_keeps:
  "next_free (snd (VarView_copy_from d s mem)) = next_free mem \<and>
   (\<forall>a. (cells (snd (VarView_copy_from d s mem)) a = None) = (cells mem a = None)) \<and>
   (fst (VarView_copy_from d s mem) = Inr () \<or>
    fst (VarView_copy_from d s mem) = Inl transfer_error \<and> snd (VarView_copy_from d s mem) = mem)"
  by (auto simp: VarView_copy_from_def BufferLaunch_copy_view_def split: option.splits)

lemma copy_from_host_keeps:
  "next_free (snd (VarView_copy_from_host d v mem)) = next_free mem \<and>
   (\<forall>a. (cells (snd (VarView_copy_from_host d v mem)) a = None) = (cells mem a = None)) \<and>
   (fst (VarView_copy_from_host d v mem) = Inr () \<or>
    fst (VarView_copy_from_host d v mem) = Inl transfer_error \<and>
    snd (VarView_copy_from_host d v mem) = mem)"
  by (auto simp: VarView_copy_from_host_def BufferLaunch_copy_from_host_def split: option.splits)

lemma assign_view_keeps: "keeps_storage this mem (DeviceVar_assign_view this vw mem)"
  using copy_view_keeps [of "view this" vw mem]
  by (cases "VarView_copy_from (view this) vw mem")
     (auto simp: keeps_storage_def DeviceVar_assign_view_def split: sum.splits)

lemma assign_keeps: "keeps_storage this mem (DeviceVar_assign this other mem)"
  using copy_view_keeps [of "view this" "view other" mem]
  by (cases "VarView_copy_from (view this) (view other) mem")
     (auto simp: keeps_storage_def DeviceVar_assign_def split: sum.splits)

lemma assign_value_keeps: "keeps_storage this mem (DeviceVar_assign_value this val mem)"
  using copy_from_host_keeps [of "view this" val mem]
  by (cases "VarView_copy_from_host (view this) val mem")
     (auto simp: keeps_storage_def DeviceVar_assign_value_def split: sum.splits)

lemma assign_view_writes:
  assumes "m_data this = Some a" "view_data vw = Some b"
    and "fst (DeviceVar_assign_view this vw mem) = Inr this'"
  shows "\<exists>c. cells mem b = Some c \<and> writes_only mem (snd (DeviceVar_assign_view this vw mem)) a c \<and>
     transfers (snd (DeviceVar_assign_view this vw mem)) = transfers mem @ [device_to_device a b]"
  using assms
  by (auto simp: DeviceVar_assign_view_def VarView_copy_from_def BufferLaunch_copy_view_def
        view_def writes_only_def split: option.splits)

lemma assign_value_writes:
  assumes "m_data this = Some a"
    and "fst (DeviceVar_assign_value this val mem) = Inr this'"
  shows "writes_only mem (snd (DeviceVar_assign_value this val mem)) a (Val val) \<and>
     transfers (snd (DeviceVar_assign_value this val mem)) = transfers mem @ [host_to_device a]"
  using assms
  by (auto simp: DeviceVar_assign_value_def VarView_copy_from_host_def
        BufferLaunch_copy_from_host_def view_def writes_only_def split: option.splits)

lemma assign_writes:
  assumes "object_address this \<noteq> object_address other"
    and "m_data this = Some a" "m_data other = Some b"
    and "fst (DeviceVar_assign this other mem) = Inr this'"
  shows "\<exists>c. cells mem b = Some c \<and> writes_only mem (snd (DeviceVar_assign this other mem)) a c \<and>
     transfers (snd (DeviceVar_assign this other mem)) = transfers mem @ [device_to_device a b]"
  using assms
  by (auto simp: DeviceVar_assign_def VarView_copy_from_def BufferLaunch_copy_view_def
        view_def writes_only_def split: option.splits)

text \<open>
  Claim C10. Each of the three assignments to a \<open>DeviceVar\<close> (from another scalar, from a
  view, from a host value) keeps the storage of its destination: the pointer is unchanged
  and nothing is allocated. When it succeeds it has made one transfer, into the cell the
  destination already owns, and has changed no other cell. Assigning a scalar to itself
  returns at once: the memory, with its record of transfers, is unchanged.
\<close>

theorem assignment_keeps_storage:
  "keeps_storage this mem (DeviceVar_assign this other mem) \<and>
   keeps_storage this mem (DeviceVar_assign_view this vw mem) \<and>
   keeps_storage this mem (DeviceVar_assign_value this val mem) \<and>
   DeviceVar_assign this this mem = (Inr this, mem) \<and>
   (object_address this \<noteq> object_address other \<and> m_data this = Some a \<and> m_data other = Some b \<and>
    fst (DeviceVar_assign this other mem) = Inr this' \<longrightarrow>
      (\<exists>c. cells mem b = Some c \<and>
           writes_only mem (snd (DeviceVar_assign this other mem)) a c \<and>
           transfers (snd (DeviceVar_assign this other mem)) =
             transfers mem @ [device_to_device a b])) \<and>
   (m_data this = Some a \<and> view_data vw = Some b \<and>
    fst (DeviceVar_assign_view this vw mem) = Inr this' \<longrightarrow>
      (\<exists>c. cells mem b = Some c \<and>
           writes_only mem (snd (DeviceVar_assign_view this vw mem)) a c \<and>
           transfers (snd (DeviceVar_assign_view this vw mem)) =
             transfers mem @ [device_to_device a b])) \<and>
   (m_data this = Some a \<and> fst (DeviceVar_assign_value this val mem) = Inr this' \<longrightarrow>
      writes_only mem (snd (DeviceVar_assign_value this val mem)) a (Val val) \<and>
      transfers (snd (DeviceVar_assign_value this val mem)) =
        transfers mem @ [host_to_device a])"
proof -
  have self: "DeviceVar_assign this this mem = (Inr this, mem)"
    by (simp add: DeviceVar_assign_def)
  from assign_keeps [of this mem other] assign_view_keeps [of this mem vw]
    assign_value_keeps [of this mem val] self
    assign_writes [of this other a b mem this'] assign_view_writes [of this a vw b mem this']
    assign_value_writes [of this a val mem this']
  show ?thesis by blast
qed

text \<open>
  The theorem on two scalars that hold 1 and 2: the self-assignment changes nothing, the
  assignments write cell 0 only.
\<close>

theorem assignment_keeps_storage_witness:
  "DeviceVar_assign \<lparr>object_address = 0, m_data = Some 0\<rparr> \<lparr>object_address = 0, m_data = Some 0\<rparr>
      \<lparr>cells = (\<lambda>a. None)(0 \<mapsto> Val (1::nat), 1 \<mapsto> Val 2), next_free = 2, transfers = []\<rparr> =
     (Inr \<lparr>object_address = 0, m_data = Some 0\<rparr>,
      \<lparr>cells = (\<lambda>a. None)(0 \<mapsto> Val (1::nat), 1 \<mapsto> Val 2), next_free = 2, transfers = []\<rparr>) \<and>
   keeps_storage \<lparr>object_address = 0, m_data = Some 0\<rparr>
      \<lparr>cells = (\<lambda>a. None)(0 \<mapsto> Val (1::nat), 1 \<mapsto> Val 2), next_free = 2, transfers = []\<rparr>
      (DeviceVar_assign \<lparr>object_address = 0, m_data = Some 0\<rparr> \<lparr>object_address = 1, m_data = Some 1\<rparr>
         \<lparr>cells = (\<lambda>a. None)(0 \<mapsto> Val (1::nat), 1 \<mapsto> Val 2), next_free = 2, transfers = []\<rparr>) \<and>
   writes_only
      \<lparr>cells = (\<lambda>a. None)(0 \<mapsto> Val (1::nat), 1 \<mapsto> Val 2), next_free = 2, transfers = []\<rparr>
      (snd (DeviceVar_assign \<lparr>object_address = 0, m_data = Some 0\<rparr>
              \<lparr>object_address = 1, m_data = Some 1\<rparr>
              \<lparr>cells = (\<lambda>a. None)(0 \<mapsto> Val (1::nat), 1 \<mapsto> Val 2), next_free = 2,
                transfers = []\<rparr>)) 0 (Val 2) \<and>
   writes_only
      \<lparr>cells = (\<lambda>a. None)(0 \<mapsto> Val (1::nat), 1 \<mapsto> Val 2), next_free = 2, transfers = []\<rparr>
      (snd (DeviceVar_assign_view \<lparr>object_address = 0, m_data = Some 0\<rparr> (VarView (Some 1))
              \<lparr>cells = (\<lambda>a. None)(0 \<mapsto> Val (1::nat), 1 \<mapsto> Val 2), next_free = 2,
                transfers = []\<rparr>)) 0 (Val 2) \<and>
   writes_only
      \<lparr>cells = (\<lambda>a. None)(0 \<mapsto> Val (1::nat), 1 \<mapsto> Val 2), next_free = 2, transfers = []\<rparr>
      (snd (DeviceVar_assign_value \<lparr>object_address = 0, m_data = Some 0\<rparr> 5
              \<lparr>cells = (\<lambda>a. None)(0 \<mapsto> Val (1::nat), 1 \<mapsto> Val 2), next_free = 2,
                transfers = []\<rparr>)) 0 (Val 5)"
proof -
  let ?m = "\<lparr>cells = (\<lambda>a. None)(0 \<mapsto> Val (1::nat), 1 \<mapsto> Val 2), next_free = 2,
             transfers = []\<rparr>"
  let ?x = "\<lparr>object_address = 0, m_data = Some 0\<rparr>"
  let ?y = "\<lparr>object_address = 1, m_data = Some 1\<rparr>"
  have 1: "fst (DeviceVar_assign ?x ?y ?m) = Inr ?x"
    by (simp add: DeviceVar_assign_def VarView_copy_from_def BufferLaunch_copy_view_def view_def)
  have 2: "fst (DeviceVar_assign_view ?x (VarView (Some 1)) ?m) = Inr ?x"
    by (simp add: DeviceVar_assign_view_def VarView_copy_from_def BufferLaunch_copy_view_def
        view_def)
  have 3: "fst (DeviceVar_assign_value ?x 5 ?m) = Inr ?x"
    by (simp add: DeviceVar_assign_value_def VarView_copy_from_host_def
        BufferLaunch_copy_from_host_def view_def)
  from assignment_keeps_storage [of ?x ?m ?y "VarView (Some 1)" 5 0 1 ?x] 1 2 3
  show ?thesis by simp
qed

section \<open>The bounded dispatch on an ascending range\<close>

lemma concat_blocks_upt:
  "concat (map (\<lambda>b. map (\<lambda>t. b * B + t) [0..<B]) [0..<G]) = [0..<G * B]"
proof (induction G)
  case 0
  show ?case by simp
next
  case (Suc G)
  have 1: "map (\<lambda>t. G * B + t) [0..<B] = [G * B..<G * B + B]"
    by (simp add: map_add_upt add.commute)
  have 2: "[0..<G * B + B] = [0..<G * B] @ [G * B..<G * B + B]"
    by (rule upt_add_eq_append) simp
  have "concat (map (\<lambda>b. map (\<lambda>t. b * B + t) [0..<B]) [0..<Suc G]) =
        concat (map (\<lambda>b. map (\<lambda>t. b * B + t) [0..<B]) [0..<G]) @ map (\<lambda>t. G * B + t) [0..<B]"
    by simp
  also have "\<dots> = [0..<G * B + B]"
    by (simp only: Suc.IH 1 2)
  finally show ?case by (simp add: add.commute)
qed

lemma units_tids:
  "map (\<lambda>u. fst u * bd + snd u) (units gd bd) = map of_nat [0..<unat gd * unat bd]"
proof -
  have "map (\<lambda>u. fst u * bd + snd u) (units gd bd) =
        concat (map (\<lambda>b. map (\<lambda>t. (of_nat (b * unat bd + t) :: uint32)) [0..<unat bd]) [0..<unat gd])"
    by (simp add: units_def map_concat comp_def)
  also have "\<dots> = map of_nat (concat (map (\<lambda>b. map (\<lambda>t. b * unat bd + t) [0..<unat bd]) [0..<unat gd]))"
    by (simp add: map_concat comp_def)
  finally show ?thesis by (simp only: concat_blocks_upt)
qed

lemma those_map_Some: "those (map (\<lambda>x. Some (g x)) xs) = Some (map g xs)"
  by (induction xs) simp_all

lemma run_launch_bounded:
  assumes "l_kernel l = ParallelForKernel"
  shows "run_launch l =
     Some (concat (map (\<lambda>tid. if l_begin l + l_step l * tid < l_end l
                               then [l_begin l + l_step l * tid] else [])
                    (map of_nat [0..<unat (l_gridDim l) * unat (l_blockDim l)])))"
proof -
  have "map (run_unit l) (units (l_gridDim l) (l_blockDim l)) =
        map (\<lambda>x. Some ((\<lambda>tid. if l_begin l + l_step l * tid < l_end l
                               then [l_begin l + l_step l * tid] else [])
                        ((\<lambda>u. fst u * l_blockDim l + snd u) x)))
            (units (l_gridDim l) (l_blockDim l))"
    using assms by (simp add: run_unit_def parallelForKernel_def Let_def)
  then have "those (map (run_unit l) (units (l_gridDim l) (l_blockDim l))) =
        Some (map (\<lambda>tid. if l_begin l + l_step l * tid < l_end l
                               then [l_begin l + l_step l * tid] else [])
               (map (\<lambda>u. fst u * l_blockDim l + snd u) (units (l_gridDim l) (l_blockDim l))))"
    by (simp only: those_map_Some map_map comp_def)
  then show ?thesis
    by (simp add: run_launch_def units_tids)
qed

lemma concat_map_if_upt:
  assumes "n \<le> m" and "\<And>j. j < m \<Longrightarrow> P j \<longleftrightarrow> j < n"
  shows "concat (map (\<lambda>j. if P j then [g j] else []) [0..<m]) = map g [0..<n]"
proof -
  have "concat (map (\<lambda>j. if P j then [g j] else []) [0..<m]) = map g (filter P [0..<m])"
    by (induction m) simp_all
  also have "filter P [0..<m] = filter (\<lambda>j. j < n) [0..<m]"
    using assms(2) by (intro filter_cong) auto
  also have "\<dots> = [0..<n]"
    using assms(1) by (induction m) (auto simp: le_Suc_eq)
  finally show ?thesis .
qed

lemma unat_index:
  fixes a s :: int32
  assumes "unat a + unat s * j < 2 ^ 32"
  shows "unat (a + s * of_nat j) = unat a + unat s * j"
proof -
  have "unat (a + s * of_nat j) =
        (unat a + (unat s * (j mod 2 ^ 32)) mod 2 ^ 32) mod 2 ^ 32"
    by (simp add: unat_word_ariths unat_of_nat)
  also have "\<dots> = (unat a + unat s * j) mod 2 ^ 32"
    by (metis mod_add_right_eq mod_mult_right_eq)
  also have "\<dots> = unat a + unat s * j"
    using assms by simp
  finally show ?thesis .
qed

lemma sint_nonneg_unat:
  fixes w :: int32
  assumes "0 \<le> sint w"
  shows "int (unat w) = sint w"
proof (cases "uint w < 2 ^ 31")
  case True
  moreover have "- (2 ^ 31) \<le> uint w"
    by (rule order_trans [of _ 0]) simp_all
  ultimately have "signed_take_bit 31 (uint w) = uint w"
    by (intro signed_take_bit_int_eq_self)
  then have "sint w = uint w"
    by (simp add: sint_uint)
  then show ?thesis by simp
next
  case False
  then have A: "signed_take_bit 31 (uint w) \<le> uint w - 4294967296"
    using signed_take_bit_int_less_eq [of 31 "uint w"] by simp
  have B: "uint w < 4294967296" using uint_bounded [of w] by simp
  have C: "sint w = signed_take_bit 31 (uint w)"
    using sint_uint [of w] by simp
  from A B C have "sint w < 0" by linarith
  with assms show ?thesis by simp
qed

lemma sint_of_small:
  fixes w :: int32
  assumes "uint w < 2 ^ 31"
  shows "sint w = uint w"
proof -
  have "- (2 ^ 31) \<le> uint w"
    by (rule order_trans [of _ 0]) simp_all
  with assms have "signed_take_bit 31 (uint w) = uint w"
    by (intro signed_take_bit_int_eq_self)
  then show ?thesis by (simp add: sint_uint)
qed

lemma ceiling_div_props:
  fixes d s :: int
  assumes "0 < s"
  shows "int j < \<lceil>real_of_int d / real_of_int s\<rceil> \<longleftrightarrow> s * int j < d"
proof -
  have "int j < \<lceil>real_of_int d / real_of_int s\<rceil> \<longleftrightarrow> real_of_int (int j) < real_of_int d / real_of_int s"
    by (rule less_ceiling_iff)
  also have "\<dots> \<longleftrightarrow> real_of_int (int j) * real_of_int s < real_of_int d"
    using assms by (simp add: pos_less_divide_eq)
  also have "\<dots> \<longleftrightarrow> int j * s < d"
    by (metis of_int_less_iff of_int_mult)
  finally show ?thesis by (simp add: mult.commute)
qed

lemma ceiling_div_cover:
  fixes n b :: int
  assumes "0 < b"
  shows "n \<le> \<lceil>real_of_int n / real_of_int b\<rceil> * b"
    and "\<lceil>real_of_int n / real_of_int b\<rceil> * b < n + b"
proof -
  let ?g = "\<lceil>real_of_int n / real_of_int b\<rceil>"
  have bp: "0 < real_of_int b" using assms by simp
  have 1: "real_of_int n / real_of_int b \<le> real_of_int ?g" by (rule le_of_int_ceiling)
  have "real_of_int n \<le> real_of_int ?g * real_of_int b"
    using 1 pos_divide_le_eq [OF bp] by blast
  then show "n \<le> ?g * b" by (metis of_int_le_iff of_int_mult)
  have "real_of_int ?g - 1 < real_of_int n / real_of_int b"
    using ceiling_correct [of "real_of_int n / real_of_int b"] by blast
  then have "(real_of_int ?g - 1) * real_of_int b < real_of_int n"
    using pos_less_divide_eq [OF bp] by blast
  then have "real_of_int ?g * real_of_int b < real_of_int n + real_of_int b"
    by (simp add: algebra_simps)
  then show "?g * b < n + b" by (metis of_int_less_iff of_int_mult of_int_add)
qed

text \<open>
  The bounded dispatch on an ascending range of non-negative indices, where neither the
  product in \<open>checkInput\<close> nor the index of any dispatched thread overflows: one
  dispatch is issued, and the calls it makes are, as integers, \<open>begin\<close>,
  \<open>begin + step\<close>, \<open>begin + 2 * step\<close>, ..., each once, and exactly those below \<open>end\<close>.
\<close>

theorem bounded_dispatch_ascending:
  assumes gd: "gridDim pf \<le>s 0" and bdp: "0 <s blockDim pf" and sp: "0 <s step"
    and b0: "0 \<le>s begin" and be: "begin <s end"
    and prod: "sint step * (sint end - sint begin) < 2 ^ 31"
    and wrap: "sint end + sint step * sint (blockDim pf) \<le> 2 ^ 32"
  shows "\<exists>l calls n.
          parallel_for_apply pf begin end step f issued = (Inr (), issued @ [l]) \<and>
          run_launch l = Some calls \<and>
          map sint calls = map (\<lambda>j. sint begin + sint step * int j) [0..<n] \<and>
          (\<forall>j. j < n \<longleftrightarrow> sint begin + sint step * int j < sint end)"
proof -
  define b e s B where "b = sint begin" and "e = sint end" and "s = sint step"
    and "B = sint (blockDim pf)"
  have pos: "0 \<le> b" "b < e" "0 < s" "0 < B"
    using b0 be sp bdp by (simp_all add: b_def e_def s_def B_def word_sless_alt word_sle_eq)
  have e31: "e < 2 ^ 31" using sint_bounds32(2) [of "end"] by (simp add: e_def)
  have step0: "step \<noteq> 0" using pos(3) by (auto simp: s_def)
  have ne: "begin \<noteq> end" using pos(2) by (auto simp: b_def e_def)
  have d: "- (2 ^ 31) \<le> e - b" "e - b < 2 ^ 31" using pos e31 by simp_all
  have sd: "0 \<le> s * (e - b)" using pos by simp
  have ok: "checkInput begin end step = Inr ()"
    using checkInput_ok_iff [of "end" "begin" step] d sd prod step0
    by (simp add: b_def e_def s_def)
  define N where "N = \<lceil>real_of_int (e - b) / real_of_int s\<rceil>"
  define G where "G = \<lceil>real_of_int N / real_of_int B\<rceil>"
  have h1: "0 \<le> sint step * (sint end - sint begin)"
    using sd by (simp only: b_def e_def s_def)
  have h4: "- (2 ^ 31) \<le> sint end - sint begin" "sint end - sint begin < 2 ^ 31"
    using d by (simp_all only: b_def e_def)
  have h6: "\<not> (sint end - sint begin = - (2 ^ 31) \<and> step = - 1)"
    using pos(2) by (simp add: b_def e_def)
  from calculateGridDim_value [OF step0 h1 bdp h4 h6]
  obtain g where g: "calculateGridDim pf begin end step = Inr g"
    and sg': "sint g = \<lceil>real_of_int \<lceil>real_of_int (sint end - sint begin) / real_of_int (sint step)\<rceil>
                         / real_of_int (sint (blockDim pf))\<rceil>"
    by blast
  have sg: "sint g = G"
    unfolding sg' G_def N_def b_def e_def s_def B_def ..
  have P1: "int j < N \<longleftrightarrow> b + s * int j < e" for j
    using ceiling_div_props [OF pos(3), of j "e - b"] by (auto simp: N_def)
  have N1: "1 \<le> N" using P1 [of 0] pos by simp
  have cover: "N \<le> G * B" "G * B < N + B"
    unfolding G_def using pos(4) by (rule ceiling_div_cover)+
  have G0: "0 \<le> G"
  proof (rule ccontr)
    assume "\<not> 0 \<le> G"
    then have "G \<le> - 1" by simp
    then have "G * B \<le> (- 1) * B"
      using pos(4) by (intro mult_right_mono) simp_all
    with cover(1) N1 pos(4) show False by simp
  qed
  define n where "n = nat N"
  define T where "T = unat g * unat (blockDim pf)"
  have nN: "j < n \<longleftrightarrow> int j < N" for j using N1 by (auto simp: n_def)
  have ub: "uint begin = b" using pos(1) sint_nonneg_unat [of "begin"] by (simp add: b_def)
  have ue: "uint end = e" using pos(1,2) sint_nonneg_unat [of "end"] by (simp add: e_def)
  have us: "uint step = s" using pos(3) sint_nonneg_unat [of step] by (simp add: s_def)
  have uB: "uint (blockDim pf) = B"
    using pos(4) sint_nonneg_unat [of "blockDim pf"] by (simp add: B_def)
  have ug: "uint g = G" using G0 sg sint_nonneg_unat [of g] by simp
  have T: "int T = G * B" by (simp add: T_def ug uB)
  have nT: "n \<le> T" using cover(1) T N1 by (simp add: n_def)
  have last: "b + s * (N - 1) < e"
    using P1 [of "nat (N - 1)"] N1 by simp
  have nowrap: "b + s * int j < 2 ^ 32" if "j < T" for j
  proof -
    have "int j < G * B" using that T by linarith
    with cover(2) have "int j \<le> (N - 1) + (B - 1)" by linarith
    then have "s * int j \<le> s * ((N - 1) + (B - 1))"
      using pos(3) by (intro mult_left_mono) simp_all
    also have "\<dots> = s * (N - 1) + s * B - s" by (simp add: algebra_simps)
    finally have "b + s * int j \<le> b + s * (N - 1) + s * B - s" by simp
    moreover have "e + s * B \<le> 2 ^ 32" using wrap by (simp add: e_def s_def B_def)
    ultimately show ?thesis using last pos(3) by linarith
  qed
  have idx: "unat (begin + step * of_nat j) = unat begin + unat step * j" if "j < T" for j
  proof (rule unat_index)
    have "int (unat begin + unat step * j) = b + s * int j" by (simp add: ub us)
    with nowrap [OF that] have "int (unat begin + unat step * j) < 2 ^ 32" by simp
    then show "unat begin + unat step * j < 2 ^ 32" by (metis of_nat_less_iff of_nat_numeral of_nat_power)
  qed
  have idx_int: "uint (begin + step * of_nat j) = b + s * int j" if "j < T" for j
  proof -
    have "int (unat (begin + step * of_nat j)) = int (unat begin + unat step * j)"
      by (simp only: idx [OF that])
    then show ?thesis by (simp add: ub us)
  qed
  have test: "begin + step * of_nat j < end \<longleftrightarrow> j < n" if "j < T" for j
  proof -
    have "begin + step * of_nat j < end \<longleftrightarrow> uint (begin + step * of_nat j) < uint end"
      by (rule word_less_def)
    also have "\<dots> \<longleftrightarrow> b + s * int j < e" by (simp only: idx_int [OF that] ue)
    also have "\<dots> \<longleftrightarrow> j < n" by (simp only: P1 nN)
    finally show ?thesis .
  qed
  let ?l = "\<lparr>l_kernel = ParallelForKernel, l_gridDim = g, l_blockDim = blockDim pf,
             l_sharedMem = sharedMemSize pf, l_stream = stream pf, l_f = f,
             l_begin = begin, l_end = end, l_step = step\<rparr>"
  let ?calls = "map (\<lambda>j. begin + step * of_nat j) [0..<n]"
  have a: "parallel_for_apply pf begin end step f issued = (Inr (), issued @ [?l])"
    using gd ne by (simp add: parallel_for_apply_def ok g)
  have "run_launch ?l =
     Some (concat (map (\<lambda>j. if begin + step * of_nat j < end
                               then [begin + step * of_nat j] else []) [0..<T]))"
    by (simp add: run_launch_bounded T_def comp_def cong: if_cong)
  also have "concat (map (\<lambda>j. if begin + step * of_nat j < end
                               then [begin + step * of_nat j] else []) [0..<T]) = ?calls"
    using nT test by (rule concat_map_if_upt)
  finally have r: "run_launch ?l = Some ?calls" .
  have v: "sint (begin + step * of_nat j) = b + s * int j" if "j < n" for j
  proof -
    have jT: "j < T" using that nT by simp
    have "b + s * int j < e" using that by (simp only: P1 nN)
    with e31 have "uint (begin + step * of_nat j) < 2 ^ 31"
      unfolding idx_int [OF jT] by linarith
    then have "sint (begin + step * of_nat j) = uint (begin + step * of_nat j)"
      by (rule sint_of_small)
    also have "\<dots> = b + s * int j" using idx_int [OF jT] by simp
    finally show ?thesis .
  qed
  have m: "map sint ?calls = map (\<lambda>j. sint begin + sint step * int j) [0..<n]"
    using v by (simp add: b_def s_def)
  have c: "\<forall>j. j < n \<longleftrightarrow> sint begin + sint step * int j < sint end"
    using P1 nN by (simp add: b_def e_def s_def)
  from a r m c show ?thesis by blast
qed

section \<open>The grid-stride dispatch on an ascending range\<close>

lemma strided_Nil:
  assumes "n \<le> k"
  shows "strided M n k = []"
proof (cases "M = 0")
  case True
  then show ?thesis by (simp add: strided_def)
next
  case False
  with assms have "n + M - 1 - k < M" by arith
  then have "(n + M - 1 - k) div M = 0" by (rule div_less)
  then show ?thesis by (simp only: strided_def upt_0 list.map)
qed

lemma strided_Cons:
  assumes "0 < M" "k < n"
  shows "strided M n k = k # strided M n (k + M)"
proof -
  define x where "x = n + M - 1 - (k + M)"
  have "n + M - 1 - k = x + M" using assms by (simp add: x_def)
  moreover have "(x + M) div M = Suc (x div M)"
    using assms(1) div_add_self2 [of M x] by simp
  ultimately have c: "(n + M - 1 - k) div M = Suc (x div M)" by simp
  have "strided M n k = map (\<lambda>i. k + i * M) [0..<Suc (x div M)]"
    by (simp only: strided_def c)
  also have "\<dots> = (k + 0 * M) # map (\<lambda>i. k + Suc i * M) [0..<x div M]"
    by (rule map_upt_Suc)
  also have "\<dots> = k # map (\<lambda>i. (k + M) + i * M) [0..<x div M]"
    by (simp add: add.assoc)
  finally show ?thesis by (simp only: strided_def x_def)
qed

lemma strided_count:
  fixes M n k i :: nat
  assumes "0 < M" "k < M"
  shows "i < (n + M - 1 - k) div M \<longleftrightarrow> k + i * M < n"
proof -
  have "i < (n + M - 1 - k) div M \<longleftrightarrow> Suc i * M \<le> n + M - 1 - k"
    using less_eq_div_iff_mult_less_eq [OF assms(1), of "Suc i" "n + M - 1 - k"]
    by (simp only: Suc_le_eq)
  also have "\<dots> \<longleftrightarrow> k + i * M < n"
    using assms by auto
  finally show ?thesis .
qed

lemma in_strided:
  assumes "0 < M" "k < M"
  shows "j \<in> set (strided M n k) \<longleftrightarrow> j < n \<and> j mod M = k"
proof
  assume "j \<in> set (strided M n k)"
  then obtain i where i: "i < (n + M - 1 - k) div M" and j: "j = k + i * M"
    by (auto simp: strided_def)
  from i have "j < n" unfolding j strided_count [OF assms] .
  moreover have "j mod M = k" using assms(2) by (simp add: j)
  ultimately show "j < n \<and> j mod M = k" ..
next
  assume a: "j < n \<and> j mod M = k"
  define i where "i = j div M"
  have j: "j = k + i * M" using a mod_div_mult_eq [of j M] by (simp add: i_def)
  have "i < (n + M - 1 - k) div M"
    unfolding strided_count [OF assms] using a j by simp
  then show "j \<in> set (strided M n k)" using j by (auto simp: strided_def)
qed

lemma distinct_strided: "0 < M \<Longrightarrow> distinct (strided M n k)"
  by (auto simp: strided_def distinct_map inj_on_def)

lemma mset_strided:
  assumes "0 < M" "k < M"
  shows "mset (strided M n k) = mset (filter (\<lambda>j. j mod M = k) [0..<n])"
proof -
  have "set (strided M n k) = set (filter (\<lambda>j. j mod M = k) [0..<n])"
    using in_strided [OF assms] by auto
  moreover have "distinct (filter (\<lambda>j. j mod M = k) [0..<n])" by simp
  ultimately show ?thesis
    using distinct_strided [OF assms(1)] set_eq_iff_mset_eq_distinct by blast
qed

lemma mset_filter_less_Suc:
  "mset (filter (\<lambda>j. r j < Suc m) xs) =
   mset (filter (\<lambda>j. r j < m) xs) + mset (filter (\<lambda>j. r j = (m::nat)) xs)"
  by (induction xs) (auto simp: less_Suc_eq)

lemma mset_all_strided:
  assumes "0 < M" "m \<le> M"
  shows "mset (concat (map (strided M n) [0..<m])) = mset (filter (\<lambda>j. j mod M < m) [0..<n])"
  using assms(2)
proof (induction m)
  case 0
  show ?case by simp
next
  case (Suc m)
  then have m: "m < M" "m \<le> M" by simp_all
  have "mset (concat (map (strided M n) [0..<Suc m])) =
        mset (concat (map (strided M n) [0..<m])) + mset (strided M n m)"
    by simp
  also have "\<dots> = mset (filter (\<lambda>j. j mod M < m) [0..<n]) +
                   mset (filter (\<lambda>j. j mod M = m) [0..<n])"
    by (simp only: Suc.IH [OF m(2)] mset_strided [OF assms(1) m(1)])
  also have "\<dots> = mset (filter (\<lambda>j. j mod M < Suc m) [0..<n])"
    by (rule mset_filter_less_Suc [symmetric])
  finally show ?case .
qed

lemma mset_units_strided:
  assumes "0 < M"
  shows "mset (concat (map (strided M n) [0..<M])) = mset [0..<n]"
  using mset_all_strided [OF assms order_refl, of n] assms by simp

lemma gridStrideLoop_strided:
  fixes a e s :: int32
  assumes M: "0 < M"
    and test: "\<And>k. k < n + M \<Longrightarrow> (a + s * of_nat k < e \<longleftrightarrow> k < n)"
  shows "k < n + M \<Longrightarrow>
         gridStrideLoop (of_nat M) a e s (of_nat k) calls =
           Some (calls @ map (\<lambda>j. a + s * of_nat j) (strided M n k))"
proof (induction "n - k" arbitrary: k calls rule: less_induct)
  case less
  show ?case
  proof (cases "k < n")
    case True
    then have t: "a + s * of_nat k < e" using test [OF less.prems] by simp
    have 1: "n - (k + M) < n - k" using True M by simp
    have 2: "k + M < n + M" using True by simp
    have "gridStrideLoop (of_nat M) a e s (of_nat k) calls =
          gridStrideLoop (of_nat M) a e s (of_nat (k + M)) (calls @ [a + s * of_nat k])"
      using gridStrideLoop_step [OF t, of "of_nat M" calls] by simp
    also have "\<dots> = Some ((calls @ [a + s * of_nat k]) @
                         map (\<lambda>j. a + s * of_nat j) (strided M n (k + M)))"
      by (rule less.hyps [OF 1 2])
    also have "\<dots> = Some (calls @ map (\<lambda>j. a + s * of_nat j) (strided M n k))"
      by (simp add: strided_Cons [OF M True])
    finally show ?thesis .
  next
    case False
    then have "\<not> a + s * of_nat k < e" using test [OF less.prems] by simp
    then have "gridStrideLoop (of_nat M) a e s (of_nat k) calls = Some calls"
      by (rule gridStrideLoop_exit)
    moreover have "strided M n k = []" using False by (intro strided_Nil) simp
    ultimately show ?thesis by simp
  qed
qed

lemma those_map_Some_cong:
  assumes "\<And>x. x \<in> set xs \<Longrightarrow> h x = Some (g x)"
  shows "those (map h xs) = Some (map g xs)"
  using assms by (induction xs) simp_all

lemma run_launch_grid_stride:
  assumes k: "l_kernel l = GridStrideLoopKernel"
    and M: "M = unat (l_gridDim l) * unat (l_blockDim l)" "0 < M"
    and test: "\<And>k. k < n + M \<Longrightarrow> (l_begin l + l_step l * of_nat k < l_end l \<longleftrightarrow> k < n)"
  shows "run_launch l =
     Some (map (\<lambda>j. l_begin l + l_step l * of_nat j) (concat (map (strided M n) [0..<M])))"
proof -
  have stride: "l_blockDim l * l_gridDim l = of_nat M"
    by (simp add: M(1) mult.commute)
  have unit: "run_unit l u =
      gridStrideLoop (of_nat M) (l_begin l) (l_end l) (l_step l) (fst u * l_blockDim l + snd u) []"
    for u
    by (simp add: run_unit_def k gridStrideLoopKernel_def stride)
  have "map (run_unit l) (units (l_gridDim l) (l_blockDim l)) =
        map (\<lambda>tid. gridStrideLoop (of_nat M) (l_begin l) (l_end l) (l_step l) tid [])
          (map (\<lambda>u. fst u * l_blockDim l + snd u) (units (l_gridDim l) (l_blockDim l)))"
    by (simp add: unit comp_def)
  also have "\<dots> = map (\<lambda>k. gridStrideLoop (of_nat M) (l_begin l) (l_end l) (l_step l) (of_nat k) [])
                     [0..<M]"
    by (simp add: units_tids M(1) comp_def)
  finally have u: "map (run_unit l) (units (l_gridDim l) (l_blockDim l)) =
        map (\<lambda>k. gridStrideLoop (of_nat M) (l_begin l) (l_end l) (l_step l) (of_nat k) [])
          [0..<M]" .
  have "those (map (\<lambda>k. gridStrideLoop (of_nat M) (l_begin l) (l_end l) (l_step l) (of_nat k) [])
          [0..<M]) =
      Some (map (\<lambda>k. map (\<lambda>j. l_begin l + l_step l * of_nat j) (strided M n k)) [0..<M])"
  proof (rule those_map_Some_cong)
    fix k assume "k \<in> set [0..<M]"
    then have "k < n + M" by simp
    from gridStrideLoop_strided [OF M(2) test this, of "[]"]
    show "gridStrideLoop (of_nat M) (l_begin l) (l_end l) (l_step l) (of_nat k) [] =
          Some (map (\<lambda>j. l_begin l + l_step l * of_nat j) (strided M n k))"
      by simp
  qed
  then have "those (map (run_unit l) (units (l_gridDim l) (l_blockDim l))) =
      Some (map (\<lambda>k. map (\<lambda>j. l_begin l + l_step l * of_nat j) (strided M n k)) [0..<M])"
    by (simp only: u)
  then show ?thesis
    by (simp add: run_launch_def map_concat comp_def)
qed

text \<open>
  The grid-stride dispatch on an ascending range of non-negative indices, where neither
  the product in \<open>checkInput\<close> nor an index that a loop tests overflows: one dispatch
  is issued, every loop ends, the unit \<open>k\<close> of the \<open>M\<close> units calls \<open>f\<close> on the indices
  \<open>begin + step * (k + i * M)\<close> in the order of \<open>i\<close>, and together the calls are, as
  integers, \<open>begin\<close>, \<open>begin + step\<close>, \<open>begin + 2 * step\<close>, ..., each once, and exactly those
  below \<open>end\<close>.
\<close>

theorem grid_stride_dispatch_ascending:
  assumes gd: "0 <s gridDim pf" and bdp: "0 <s blockDim pf" and sp: "0 <s step"
    and b0: "0 \<le>s begin" and be: "begin \<le>s end"
    and prod: "sint step * (sint end - sint begin) < 2 ^ 31"
    and wrap: "sint end + sint step * (sint (gridDim pf) * sint (blockDim pf)) \<le> 2 ^ 32"
  shows "\<exists>l calls n.
          parallel_for_apply pf begin end step f issued = (Inr (), issued @ [l]) \<and>
          run_launch l = Some calls \<and>
          calls = map (\<lambda>j. begin + step * of_nat j)
                    (concat (map (strided (unat (gridDim pf) * unat (blockDim pf)) n)
                               [0..<unat (gridDim pf) * unat (blockDim pf)])) \<and>
          mset (map sint calls) = mset (map (\<lambda>j. sint begin + sint step * int j) [0..<n]) \<and>
          (\<forall>j. j < n \<longleftrightarrow> sint begin + sint step * int j < sint end)"
proof -
  define b e s where "b = sint begin" and "e = sint end" and "s = sint step"
  define M where "M = unat (gridDim pf) * unat (blockDim pf)"
  have pos: "0 \<le> b" "b \<le> e" "0 < s" "0 < sint (gridDim pf)" "0 < sint (blockDim pf)"
    using b0 be sp gd bdp by (simp_all add: b_def e_def s_def word_sless_alt word_sle_eq)
  have e31: "e < 2 ^ 31" using sint_bounds32(2) [of "end"] by (simp add: e_def)
  have step0: "step \<noteq> 0" using pos(3) by (auto simp: s_def)
  have d: "- (2 ^ 31) \<le> e - b" "e - b < 2 ^ 31" using pos e31 by simp_all
  have sd: "0 \<le> s * (e - b)" using pos by simp
  have ok: "checkInput begin end step = Inr ()"
    using checkInput_ok_iff [of "end" "begin" step] d sd prod step0
    by (simp add: b_def e_def s_def)
  have ngd: "\<not> gridDim pf \<le>s 0" using pos(4) by (simp add: word_sle_eq)
  define N where "N = \<lceil>real_of_int (e - b) / real_of_int s\<rceil>"
  define n where "n = nat N"
  have P1: "int j < N \<longleftrightarrow> b + s * int j < e" for j
    using ceiling_div_props [OF pos(3), of j "e - b"] by (auto simp: N_def)
  have x0: "0 \<le> real_of_int (e - b) / real_of_int s" using pos by simp
  then have "- 1 < real_of_int (e - b) / real_of_int s" by linarith
  then have N0: "0 \<le> N" unfolding N_def by (simp only: zero_le_ceiling)
  have nN: "j < n \<longleftrightarrow> int j < N" for j using N0 by (auto simp: n_def)
  have ub: "uint begin = b" using pos(1) sint_nonneg_unat [of "begin"] by (simp add: b_def)
  have ue: "uint end = e" using pos(1,2) sint_nonneg_unat [of "end"] by (simp add: e_def)
  have us: "uint step = s" using pos(3) sint_nonneg_unat [of step] by (simp add: s_def)
  have uM: "int M = sint (gridDim pf) * sint (blockDim pf)"
    using pos(4,5) sint_nonneg_unat [of "gridDim pf"] sint_nonneg_unat [of "blockDim pf"]
    by (simp add: M_def)
  have M0: "0 < M" using uM pos(4,5) by (metis of_nat_0_less_iff zero_less_mult_iff)
  have wrapM: "e + s * int M \<le> 2 ^ 32" using wrap by (simp add: e_def s_def uM)
  have nowrap: "b + s * int k < 2 ^ 32" if "k < n + M" for k
  proof (cases "k < M")
    case True
    then have "s * int k < s * int M" using pos(3) by (intro mult_strict_left_mono) simp_all
    with wrapM pos(2) show ?thesis by linarith
  next
    case False
    then have "k - M < n" using that by simp
    then have "b + s * int (k - M) < e" by (simp only: P1 nN)
    moreover have "int (k - M) = int k - int M" using False by simp
    ultimately have "b + s * int k - s * int M < e" by (simp add: algebra_simps)
    with wrapM show ?thesis by linarith
  qed
  have idx: "unat (begin + step * of_nat k) = unat begin + unat step * k" if "k < n + M" for k
  proof (rule unat_index)
    have "int (unat begin + unat step * k) = b + s * int k" by (simp add: ub us)
    with nowrap [OF that] have "int (unat begin + unat step * k) < 2 ^ 32" by simp
    then show "unat begin + unat step * k < 2 ^ 32"
      by (metis of_nat_less_iff of_nat_numeral of_nat_power)
  qed
  have idx_int: "uint (begin + step * of_nat k) = b + s * int k" if "k < n + M" for k
  proof -
    have "int (unat (begin + step * of_nat k)) = int (unat begin + unat step * k)"
      by (simp only: idx [OF that])
    then show ?thesis by (simp add: ub us)
  qed
  have test: "begin + step * of_nat k < end \<longleftrightarrow> k < n" if "k < n + M" for k
  proof -
    have "begin + step * of_nat k < end \<longleftrightarrow> uint (begin + step * of_nat k) < uint end"
      by (rule word_less_def)
    also have "\<dots> \<longleftrightarrow> b + s * int k < e" by (simp only: idx_int [OF that] ue)
    also have "\<dots> \<longleftrightarrow> k < n" by (simp only: P1 nN)
    finally show ?thesis .
  qed
  let ?l = "\<lparr>l_kernel = GridStrideLoopKernel, l_gridDim = gridDim pf, l_blockDim = blockDim pf,
             l_sharedMem = sharedMemSize pf, l_stream = stream pf, l_f = f,
             l_begin = begin, l_end = end, l_step = step\<rparr>"
  let ?ks = "concat (map (strided M n) [0..<M])"
  let ?calls = "map (\<lambda>j. begin + step * of_nat j) ?ks"
  have a: "parallel_for_apply pf begin end step f issued = (Inr (), issued @ [?l])"
    using ngd by (simp add: parallel_for_apply_def ok)
  have r: "run_launch ?l = Some ?calls"
    using run_launch_grid_stride [of ?l M n] M0 test by (simp add: M_def)
  have v: "sint (begin + step * of_nat j) = b + s * int j" if "j < n" for j
  proof -
    have jT: "j < n + M" using that by simp
    have "b + s * int j < e" using that by (simp only: P1 nN)
    with e31 have "uint (begin + step * of_nat j) < 2 ^ 31"
      unfolding idx_int [OF jT] by linarith
    then have "sint (begin + step * of_nat j) = uint (begin + step * of_nat j)"
      by (rule sint_of_small)
    also have "\<dots> = b + s * int j" using idx_int [OF jT] by simp
    finally show ?thesis .
  qed
  have "mset (map sint ?calls) = image_mset (\<lambda>j. sint (begin + step * of_nat j)) (mset ?ks)"
    by (simp add: comp_def)
  also have "\<dots> = image_mset (\<lambda>j. sint (begin + step * of_nat j)) (mset [0..<n])"
    by (simp only: mset_units_strided [OF M0])
  also have "\<dots> = mset (map (\<lambda>j. sint (begin + step * of_nat j)) [0..<n])"
    by simp
  also have "map (\<lambda>j. sint (begin + step * of_nat j)) [0..<n] =
             map (\<lambda>j. sint begin + sint step * int j) [0..<n]"
    using v by (simp add: b_def s_def)
  finally have m: "mset (map sint ?calls) =
      mset (map (\<lambda>j. sint begin + sint step * int j) [0..<n])" .
  have c: "\<forall>j. j < n \<longleftrightarrow> sint begin + sint step * int j < sint end"
    using P1 nN by (simp add: b_def e_def s_def)
  from a r m c show ?thesis unfolding M_def by blast
qed

end
